theory Spec2Isabelle
  imports Complex_Main "HOL-Library.AList"
begin

section \<open>JavaScript numbers and strings\<close>

text \<open>
  The engine computes with the JavaScript type \<^verbatim>\<open>number\<close>, the double precision numbers
  of IEEE 754. A number is modelled as its real value or one of the three special
  values of the language. Arithmetic on the special values follows the language
  (\<^verbatim>\<open>0 / 0\<close> is \<^verbatim>\<open>NaN\<close>, \<^verbatim>\<open>Infinity - Infinity\<close> is \<^verbatim>\<open>NaN\<close>, ...). On two finite operands
  an operation returns the exact real result rounded to the nearest double, ties to
  the even significand, and an infinity when the rounded result is out of range. The
  sign of zero is not represented.
\<close>

datatype jsnum = Fin real | PosInf | NegInf | NaN

text \<open>
  Rounding. \<open>binade n x\<close> is the exponent \<open>e\<close> with \<open>2 ^ e \<le> x < 2 ^ (e + 1)\<close> of a positive
  \<open>x\<close>, found by halving or doubling \<open>x\<close> at most \<open>n\<close> times. A double is an integer
  multiple of \<open>2 ^ q\<close> with a significand below \<open>2 ^ 53\<close>, where \<open>q\<close> is \<open>e - 52\<close> and
  at least \<open>- 1074\<close> (the subnormal numbers); a result of magnitude \<open>2 ^ 1024\<close> or more
  is an infinity.
\<close>

definition round_half_even :: "real \<Rightarrow> int" where
  "round_half_even x =
     (let f = \<lfloor>x\<rfloor>; d = x - of_int f
      in if d < 1 / 2 then f else if 1 / 2 < d then f + 1 else if even f then f else f + 1)"

fun binade :: "nat \<Rightarrow> real \<Rightarrow> int" where
  "binade 0 x = 0"
| "binade (Suc n) x =
     (if 2 \<le> x then binade n (x / 2) + 1
      else if x < 1 then binade n (2 * x) - 1
      else 0)"

definition round64 :: "real \<Rightarrow> jsnum" where
  "round64 x =
     (if x = 0 then Fin 0
      else
        let e = binade 1100 \<bar>x\<bar>;
            q = max (e - 52) (- 1074);
            y = of_int (round_half_even (x / 2 powi q)) * 2 powi q
        in if 2 ^ 1024 \<le> y then PosInf else if y \<le> - (2 ^ 1024) then NegInf else Fin y)"

fun jsneg :: "jsnum \<Rightarrow> jsnum" where
  "jsneg (Fin a) = Fin (- a)"
| "jsneg PosInf = NegInf"
| "jsneg NegInf = PosInf"
| "jsneg NaN = NaN"

fun jsadd :: "jsnum \<Rightarrow> jsnum \<Rightarrow> jsnum" where
  "jsadd (Fin a) (Fin b) = round64 (a + b)"
| "jsadd NaN _ = NaN"
| "jsadd _ NaN = NaN"
| "jsadd PosInf NegInf = NaN"
| "jsadd NegInf PosInf = NaN"
| "jsadd PosInf _ = PosInf"
| "jsadd _ PosInf = PosInf"
| "jsadd NegInf _ = NegInf"
| "jsadd _ NegInf = NegInf"

definition jssub :: "jsnum \<Rightarrow> jsnum \<Rightarrow> jsnum" where
  "jssub a b = jsadd a (jsneg b)"

text \<open>The sign of a number, and the infinity (or \<^verbatim>\<open>NaN\<close>) that a sign selects.\<close>

fun jssign :: "jsnum \<Rightarrow> real" where
  "jssign (Fin a) = sgn a"
| "jssign PosInf = 1"
| "jssign NegInf = - 1"
| "jssign NaN = 0"

definition inf_of :: "real \<Rightarrow> jsnum" where
  "inf_of s = (if s = 0 then NaN else if 0 < s then PosInf else NegInf)"

fun jsmul :: "jsnum \<Rightarrow> jsnum \<Rightarrow> jsnum" where
  "jsmul (Fin a) (Fin b) = round64 (a * b)"
| "jsmul NaN _ = NaN"
| "jsmul _ NaN = NaN"
| "jsmul a b = inf_of (jssign a * jssign b)"

fun jsdiv :: "jsnum \<Rightarrow> jsnum \<Rightarrow> jsnum" where
  "jsdiv (Fin a) (Fin b) = (if b = 0 then inf_of a else round64 (a / b))"
| "jsdiv NaN _ = NaN"
| "jsdiv _ NaN = NaN"
| "jsdiv (Fin a) _ = Fin 0"
| "jsdiv a (Fin b) = (if 0 \<le> b then a else jsneg a)"
| "jsdiv _ _ = NaN"

definition is_finite :: "jsnum \<Rightarrow> bool" where
  "is_finite v = (case v of Fin _ \<Rightarrow> True | _ \<Rightarrow> False)"

text \<open>
  A template literal \<^verbatim>\<open>${v}\<close> converts the number \<^verbatim>\<open>v\<close> to a string with the language's
  \<^verbatim>\<open>Number::toString\<close>. That conversion belongs to the language, not to this program:
  every function that builds a string takes it as its first argument \<open>sh\<close>.
  \<^verbatim>\<open>Array.prototype.join\<close> is \<open>join\<close>.
\<close>

fun join :: "string \<Rightarrow> string list \<Rightarrow> string" where
  "join sep [] = []"
| "join sep [x] = x"
| "join sep (x # y # ys) = x @ sep @ join sep (y # ys)"

abbreviation (input) dquote :: string where
  "dquote \<equiv> [CHR 0x22]"

abbreviation (input) newline :: string where
  "newline \<equiv> [CHR 0x0A]"

section \<open>Steps\<close>

type_synonym Point = "jsnum \<times> jsnum"

text \<open>
  A \<^verbatim>\<open>Step\<close>: \<open>at_percent\<close> (the field \<^verbatim>\<open>at\<close>) and \<open>styles\<close> are optional. \<open>styles\<close> holds the property/value
  pairs in the order \<^verbatim>\<open>Object.entries\<close> lists them.
\<close>

record Step =
  at_percent :: "jsnum option"
  point :: Point
  styles :: "(string \<times> string) list option"

section \<open>Path and keyframe synthesis\<close>

text \<open>
  \<^verbatim>\<open>points[i] ?? points.at(-1)!\<close>: an index past the end reads \<^verbatim>\<open>undefined\<close>, which
  \<^verbatim>\<open>??\<close> replaces by the last element. The loop of \<open>buildPath\<close> evaluates it only
  while \<open>i < length points\<close>, so the list is not empty there.
\<close>

definition pointOrLast :: "Point list \<Rightarrow> nat \<Rightarrow> Point" where
  "pointOrLast points i = (if i < length points then points ! i else last points)"

definition curveTo :: "(jsnum \<Rightarrow> string) \<Rightarrow> Point \<Rightarrow> Point \<Rightarrow> Point \<Rightarrow> string" where
  "curveTo sh p1 p2 p3 =
     ''C '' @ sh (fst p1) @ '' '' @ sh (snd p1) @ '', '' @ sh (fst p2) @ '' '' @ sh (snd p2)
       @ '', '' @ sh (fst p3) @ '' '' @ sh (snd p3)"

function buildPath_loop ::
  "(jsnum \<Rightarrow> string) \<Rightarrow> Point list \<Rightarrow> nat \<Rightarrow> string list \<Rightarrow> string list" where
  "buildPath_loop sh points i path =
     (if i < length points
      then buildPath_loop sh points (i + 2)
             (path @ [curveTo sh (pointOrLast points i) (pointOrLast points (i + 1))
                        (pointOrLast points (i + 2))])
      else path)"
  by pat_completeness auto
termination
  by (relation "measure (\<lambda>(sh, points, i, path). length points - i)") auto

declare buildPath_loop.simps [simp del]

definition buildPath :: "(jsnum \<Rightarrow> string) \<Rightarrow> Point list \<Rightarrow> string" where
  "buildPath sh points =
     (if length points = 1
      then (case points ! 0 of (x, y) \<Rightarrow>
              ''path('' @ dquote @ ''M 0 0 L '' @ sh x @ '' '' @ sh y @ dquote @ '')'')
      else ''path('' @ dquote @ join '' '' (buildPath_loop sh points 0 [''M 0 0''])
             @ dquote @ '')'')"

text \<open>
  \<open>buildKeyframes\<close>. \<open>percentOf n i step\<close> is \<^verbatim>\<open>step.at ?? (i / (steps.length - 1)) * 100\<close>
  with \<open>n\<close> the length of the list; the division is evaluated whatever the divisor is.
\<close>

definition percentOf :: "nat \<Rightarrow> nat \<Rightarrow> Step \<Rightarrow> jsnum" where
  "percentOf n i step =
     (case at_percent step of
        Some a \<Rightarrow> a
      | None \<Rightarrow> jsmul (jsdiv (Fin (real i)) (jssub (Fin (real n)) (Fin 1))) (Fin 100))"

definition styleBlockOf :: "Step \<Rightarrow> string" where
  "styleBlockOf step =
     (case styles step of
        Some entries \<Rightarrow> join '' '' (map (\<lambda>(k, v). k @ '': '' @ v @ '';'') entries)
      | None \<Rightarrow> '''')"

definition frameOf :: "(jsnum \<Rightarrow> string) \<Rightarrow> nat \<Rightarrow> nat \<times> Step \<Rightarrow> string" where
  "frameOf sh n = (\<lambda>(i, step).
     (let percent = percentOf n i step;
          styleBlock = styleBlockOf step
      in sh percent @ ''% { offset-distance: '' @ sh percent @ ''%; '' @ styleBlock @ '' }''))"

definition framesOf :: "(jsnum \<Rightarrow> string) \<Rightarrow> Step list \<Rightarrow> string list" where
  "framesOf sh steps = map (frameOf sh (length steps)) (enumerate 0 steps)"

definition buildKeyframes :: "(jsnum \<Rightarrow> string) \<Rightarrow> string \<Rightarrow> Step list \<Rightarrow> string" where
  "buildKeyframes sh name steps =
     ''@keyframes '' @ name @ '' {'' @ newline @ join newline (framesOf sh steps)
       @ newline @ ''}''"

section \<open>The host environment\<close>

text \<open>
  The element and its measured rectangle. The fields of the rectangle are prefixed with
  \<open>rect\<close>. \<open>ident\<close> is the identity of the DOM object,
  \<open>bounds\<close> the rectangle \<^verbatim>\<open>getBoundingClientRect\<close> returns for it, and \<open>style\<close> its inline
  style as property/value pairs.
\<close>

record DOMRect =
  rect_left :: jsnum
  rect_top :: jsnum
  rect_width :: jsnum
  rect_height :: jsnum

record Node =
  ident :: nat
  bounds :: DOMRect
  style :: "(string \<times> string) list"

record GenerateStepArgs =
  node :: Node
  rect :: DOMRect

record HTMLStyleElement =
  el_ident :: nat
  innerHTML :: string

text \<open>
  What a thrown value is does not matter here. An awaited callback either fulfils,
  rejects (or throws), or never settles; a step factory returns a step or throws.
\<close>

datatype error = Thrown string

datatype settled = Fulfilled | Rejected error | Pending

type_synonym StepFactory = "GenerateStepArgs \<Rightarrow> error + Step"

type_synonym Hook = "GenerateStepArgs \<Rightarrow> settled"

text \<open>
  The operations of the engine on its host, in the order it performs them. A measurement,
  a hook and a factory call carry the identity of the motion's element (a factory call
  also its index in the list); an insertion carries the inserted element, a removal the
  identity of the removed one.
\<close>

datatype event =
    Measured nat
  | BeforeHook nat
  | FactoryCall nat nat
  | StyleInjected HTMLStyleElement
  | CloneAppended Node
  | TimerSet jsnum
  | CloneRemoved nat
  | StyleRemoved nat
  | AfterHook nat

text \<open>
  The state of the host: the style elements appended to \<^verbatim>\<open>document.head\<close>, the nodes
  appended to \<^verbatim>\<open>document.body\<close>, the identity of the next created object, the strings
  \<^verbatim>\<open>Math.random().toString(36).slice(2)\<close> will return and how many were drawn, and the
  events so far. Hooks and factories are modelled by their outcome only: what they
  themselves do to the document or to the motion is outside the engine.
\<close>

record World =
  head_children :: "HTMLStyleElement list"
  body_children :: "Node list"
  fresh :: nat
  random_strings :: "nat \<Rightarrow> string"
  drawn :: nat
  trace :: "event list"

definition record_event :: "event \<Rightarrow> World \<Rightarrow> World" where
  "record_event ev w = w\<lparr>trace := trace w @ [ev]\<rparr>"

definition getBoundingClientRect :: "Node \<Rightarrow> DOMRect" where
  "getBoundingClientRect n = bounds n"

definition random_suffix :: "World \<Rightarrow> string \<times> World" where
  "random_suffix w = (random_strings w (drawn w), w\<lparr>drawn := drawn w + 1\<rparr>)"

text \<open>\<^verbatim>\<open>Object.assign(target, source)\<close> on property lists.\<close>

definition assign :: "(string \<times> string) list \<Rightarrow> (string \<times> string) list \<Rightarrow> (string \<times> string) list" where
  "assign target source = foldl (\<lambda>t (k, v). AList.update k v t) target source"

section \<open>Motion\<close>

text \<open>
  The private field \<^verbatim>\<open>node\<close> of a motion is \<open>this_node\<close> here, the record of the measurement
  context having a field \<open>node\<close> already. The setters of the timing fields only store
  their argument; the examples below write them as record updates.
\<close>

datatype Repeat = Count jsnum | Infinite

datatype Direction = Normal | Reverse

record MotionCloneAnimation =
  name :: string
  duration :: jsnum
  easing :: string
  delay :: jsnum
  repeat :: Repeat
  direction :: Direction

record Motion =
  this_node :: Node
  factories :: "StepFactory list"
  durationMs :: jsnum
  easingFn :: string
  delayMs :: jsnum
  repeatCount :: Repeat
  directionVal :: Direction
  beforeCallback :: "Hook option"
  afterCallback :: "Hook option"

definition new_Motion :: "Node \<Rightarrow> Motion" where
  "new_Motion n =
     \<lparr>this_node = n, factories = [], durationMs = Fin 1000, easingFn = ''linear'',
      delayMs = Fin 0, repeatCount = Count (Fin 1), directionVal = Normal,
      beforeCallback = None, afterCallback = None\<rparr>"

definition addStep :: "StepFactory \<Rightarrow> Motion \<Rightarrow> Motion" where
  "addStep factory m = m\<lparr>factories := factories m @ [factory]\<rparr>"

definition before :: "Hook \<Rightarrow> Motion \<Rightarrow> Motion" where
  "before cb m = m\<lparr>beforeCallback := Some cb\<rparr>"

definition after :: "Hook \<Rightarrow> Motion \<Rightarrow> Motion" where
  "after cb m = m\<lparr>afterCallback := Some cb\<rparr>"

definition showRepeat :: "(jsnum \<Rightarrow> string) \<Rightarrow> Repeat \<Rightarrow> string" where
  "showRepeat sh r = (case r of Count n \<Rightarrow> sh n | Infinite \<Rightarrow> ''infinite'')"

definition showDirection :: "Direction \<Rightarrow> string" where
  "showDirection d = (case d of Normal \<Rightarrow> ''normal'' | Reverse \<Rightarrow> ''reverse'')"

definition injectStyle :: "string \<Rightarrow> World \<Rightarrow> HTMLStyleElement \<times> World" where
  "injectStyle css w =
     (let el = \<lparr>el_ident = fresh w, innerHTML = css\<rparr>
      in (el, record_event (StyleInjected el)
                (w\<lparr>head_children := head_children w @ [el], fresh := fresh w + 1\<rparr>)))"

text \<open>
  \<open>createClone\<close>: \<^verbatim>\<open>node.cloneNode(true)\<close> is a new object (the identity \<open>i\<close>) with the
  properties of \<open>node\<close>; \<^verbatim>\<open>Object.assign\<close> then sets the thirteen style properties.
\<close>

definition createClone ::
  "(jsnum \<Rightarrow> string) \<Rightarrow> nat \<Rightarrow> Node \<Rightarrow> DOMRect \<Rightarrow> jsnum \<Rightarrow> jsnum \<Rightarrow> string
     \<Rightarrow> MotionCloneAnimation \<Rightarrow> Node" where
  "createClone sh i n r x y path animation =
     (let clone = n\<lparr>ident := i\<rparr>
      in clone\<lparr>style := assign (style clone)
           [(''position'', ''fixed''),
            (''left'', sh x @ ''px''),
            (''top'', sh y @ ''px''),
            (''width'', sh (rect_width r) @ ''px''),
            (''height'', sh (rect_height r) @ ''px''),
            (''zIndex'', ''9999''),
            (''pointerEvents'', ''none''),
            (''transform'', ''translate(0, 0)''),
            (''offsetPath'', path),
            (''offsetDistance'', ''0%''),
            (''offsetRotate'', ''0deg''),
            (''willChange'', ''offset-distance''),
            (''animation'',
               name animation @ '' '' @ sh (duration animation) @ ''ms '' @ easing animation
                 @ '' '' @ sh (delay animation) @ ''ms '' @ showRepeat sh (repeat animation)
                 @ '' '' @ showDirection (direction animation) @ '' forwards'')]\<rparr>)"

definition appendChild :: "Node \<Rightarrow> World \<Rightarrow> World" where
  "appendChild clone w =
     record_event (CloneAppended clone) (w\<lparr>body_children := body_children w @ [clone]\<rparr>)"

definition remove_clone :: "Node \<Rightarrow> World \<Rightarrow> World" where
  "remove_clone clone w =
     record_event (CloneRemoved (ident clone))
       (w\<lparr>body_children := filter (\<lambda>c. ident c \<noteq> ident clone) (body_children w)\<rparr>)"

definition remove_style :: "HTMLStyleElement \<Rightarrow> World \<Rightarrow> World" where
  "remove_style el w =
     record_event (StyleRemoved (el_ident el))
       (w\<lparr>head_children := filter (\<lambda>c. el_ident c \<noteq> el_ident el) (head_children w)\<rparr>)"

text \<open>An optional hook, awaited: an absent hook is skipped.\<close>

definition callHook :: "event \<Rightarrow> Hook option \<Rightarrow> GenerateStepArgs \<Rightarrow> World \<Rightarrow> settled \<times> World" where
  "callHook ev hook ctx w =
     (case hook of
        None \<Rightarrow> (Fulfilled, w)
      | Some cb \<Rightarrow> (cb ctx, record_event ev w))"

text \<open>
  \<^verbatim>\<open>this.factories.map((fn) => fn(context))\<close>: the factories are called in order, and the
  first one that throws ends the call.
\<close>

fun mapFactories ::
  "StepFactory list \<Rightarrow> GenerateStepArgs \<Rightarrow> nat \<Rightarrow> World \<Rightarrow> (error + Step list) \<times> World" where
  "mapFactories [] ctx i w = (Inr [], w)"
| "mapFactories (fn # fns) ctx i w =
     (let w' = record_event (FactoryCall (ident (node ctx)) i) w
      in case fn ctx of
           Inl e \<Rightarrow> (Inl e, w')
         | Inr step \<Rightarrow>
             (case mapFactories fns ctx (i + 1) w' of
                (Inl e, w'') \<Rightarrow> (Inl e, w'')
              | (Inr steps, w'') \<Rightarrow> (Inr (step # steps), w'')))"

definition normalized :: "Step list \<Rightarrow> Point list" where
  "normalized steps =
     (case point (steps ! 0) of (startX, startY) \<Rightarrow>
        map (\<lambda>s. (jssub (fst (point s)) startX, jssub (snd (point s)) startY)) steps)"

text \<open>
  The wait of \<open>run\<close>: \<^verbatim>\<open>setTimeout\<close> is asked for \<open>total_ms\<close> (the source's \<^verbatim>\<open>total\<close>) milliseconds, and its callback
  removes the clone, then the style element, and resolves the awaited promise.
\<close>

definition teardown_after :: "jsnum \<Rightarrow> Node \<Rightarrow> HTMLStyleElement \<Rightarrow> World \<Rightarrow> World" where
  "teardown_after total_ms clone styleEl w =
     remove_style styleEl (remove_clone clone (record_event (TimerSet total_ms) w))"

definition run :: "(jsnum \<Rightarrow> string) \<Rightarrow> Motion \<Rightarrow> World \<Rightarrow> settled \<times> World" where
  "run sh m w0 =
     (let r = getBoundingClientRect (this_node m);
          w1 = record_event (Measured (ident (this_node m))) w0;
          context = \<lparr>node = this_node m, rect = r\<rparr>
      in case callHook (BeforeHook (ident (this_node m))) (beforeCallback m) context w1 of
           (Rejected e, w2) \<Rightarrow> (Rejected e, w2)
         | (Pending, w2) \<Rightarrow> (Pending, w2)
         | (Fulfilled, w2) \<Rightarrow>
             (case mapFactories (factories m) context 0 w2 of
                (Inl e, w3) \<Rightarrow> (Rejected e, w3)
              | (Inr steps, w3) \<Rightarrow>
                  if length steps = 0 then (Fulfilled, w3)
                  else
                    (case point (steps ! 0) of (startX, startY) \<Rightarrow>
                       let pathString = buildPath sh (normalized steps);
                           (suffix, w4) = random_suffix w3;
                           keyframeName = ''motion_'' @ suffix;
                           keyframeCSS = buildKeyframes sh keyframeName steps;
                           (styleEl, w5) = injectStyle keyframeCSS w4;
                           clone = createClone sh (fresh w5) (this_node m) r startX startY pathString
                                     \<lparr>name = keyframeName, duration = durationMs m,
                                      easing = easingFn m, delay = delayMs m,
                                      repeat = repeatCount m, direction = directionVal m\<rparr>;
                           w6 = appendChild clone (w5\<lparr>fresh := fresh w5 + 1\<rparr>);
                           w7 = (if repeatCount m \<noteq> Infinite
                                 then let total_ms = jsmul (jsadd (durationMs m) (delayMs m))
                                                    (case repeatCount m of Count n \<Rightarrow> n | Infinite \<Rightarrow> Fin 1)
                                      in teardown_after total_ms clone styleEl w6
                                 else w6)
                       in callHook (AfterHook (ident (this_node m))) (afterCallback m) context w7)))"

section \<open>MotionTimeline\<close>

text \<open>
  A queue entry is a motion or a nested timeline. The queue is a value here: a timeline
  that contains itself, and a queue changed while it is played, are not represented.
\<close>

datatype MotionTimeline = MotionTimeline (queue: "entry list")
  and entry = OfMotion Motion | OfTimeline MotionTimeline

definition new_MotionTimeline :: MotionTimeline where
  "new_MotionTimeline = MotionTimeline []"

definition add :: "entry \<Rightarrow> MotionTimeline \<Rightarrow> MotionTimeline" where
  "add e t = MotionTimeline (queue t @ [e])"

definition clear :: "MotionTimeline \<Rightarrow> MotionTimeline" where
  "clear t = MotionTimeline []"

fun play :: "(jsnum \<Rightarrow> string) \<Rightarrow> MotionTimeline \<Rightarrow> World \<Rightarrow> settled \<times> World"
  and play_queue :: "(jsnum \<Rightarrow> string) \<Rightarrow> entry list \<Rightarrow> World \<Rightarrow> settled \<times> World"
  and play_entry :: "(jsnum \<Rightarrow> string) \<Rightarrow> entry \<Rightarrow> World \<Rightarrow> settled \<times> World" where
  "play sh (MotionTimeline q) w = play_queue sh q w"
| "play_queue sh [] w = (Fulfilled, w)"
| "play_queue sh (e # es) w =
     (case play_entry sh e w of
        (Fulfilled, w') \<Rightarrow> play_queue sh es w'
      | (Rejected err, w') \<Rightarrow> (Rejected err, w')
      | (Pending, w') \<Rightarrow> (Pending, w'))"
| "play_entry sh (OfTimeline t) w = play sh t w"
| "play_entry sh (OfMotion m) w = run sh m w"

section \<open>A number printer for examples\<close>

text \<open>
  \<open>toStr\<close> agrees with \<^verbatim>\<open>Number::toString\<close> on the special values and on the integers
  below \<^verbatim>\<open>1e21\<close> in magnitude, which print as their decimal digits. It prints only the
  integer part of any other number, so the examples below use it at integers only.
\<close>

function showNat :: "nat \<Rightarrow> string" where
  "showNat n =
     (if n < 10 then [''0123456789'' ! n]
      else showNat (n div 10) @ [''0123456789'' ! (n mod 10)])"
  by pat_completeness auto
termination
  by (relation "measure id") auto

declare showNat.simps [simp del]

definition toStr :: "jsnum \<Rightarrow> string" where
  "toStr v =
     (case v of
        Fin r \<Rightarrow> (if r < 0 then ''-'' else '''') @ showNat (nat \<lfloor>\<bar>r\<bar>\<rfloor>)
      | PosInf \<Rightarrow> ''Infinity''
      | NegInf \<Rightarrow> ''-Infinity''
      | NaN \<Rightarrow> ''NaN'')"

section \<open>Notions used in the statements\<close>

text \<open>The curve segment the loop of \<open>buildPath\<close> appends at index \<open>i\<close>.\<close>

definition curveAt :: "(jsnum \<Rightarrow> string) \<Rightarrow> Point list \<Rightarrow> nat \<Rightarrow> string" where
  "curveAt sh points i =
     curveTo sh (pointOrLast points i) (pointOrLast points (i + 1)) (pointOrLast points (i + 2))"

text \<open>
  The measurement context of a run, the outcome of an optional hook and the event its
  call leaves, and the steps the factories return when none of them throws.
\<close>

definition context_of :: "Motion \<Rightarrow> GenerateStepArgs" where
  "context_of m = \<lparr>node = this_node m, rect = getBoundingClientRect (this_node m)\<rparr>"

definition hook_outcome :: "Hook option \<Rightarrow> GenerateStepArgs \<Rightarrow> settled" where
  "hook_outcome hook ctx = (case hook of None \<Rightarrow> Fulfilled | Some cb \<Rightarrow> cb ctx)"

definition hook_events :: "event \<Rightarrow> Hook option \<Rightarrow> event list" where
  "hook_events ev hook = (case hook of None \<Rightarrow> [] | Some cb \<Rightarrow> [ev])"

definition steps_returned :: "Motion \<Rightarrow> Step list \<Rightarrow> bool" where
  "steps_returned m steps = (map (\<lambda>fn. fn (context_of m)) (factories m) = map Inr steps)"

text \<open>
  The objects one run creates in the world \<open>w\<close> it starts in: the name of the keyframe
  animation, the injected style element and the clone, as \<open>run\<close> builds them from the
  steps.
\<close>

definition keyframeName_of :: "World \<Rightarrow> string" where
  "keyframeName_of w = ''motion_'' @ random_strings w (drawn w)"

definition styleEl_of :: "(jsnum \<Rightarrow> string) \<Rightarrow> Step list \<Rightarrow> World \<Rightarrow> HTMLStyleElement" where
  "styleEl_of sh steps w =
     \<lparr>el_ident = fresh w, innerHTML = buildKeyframes sh (keyframeName_of w) steps\<rparr>"

definition clone_of :: "(jsnum \<Rightarrow> string) \<Rightarrow> Motion \<Rightarrow> Step list \<Rightarrow> World \<Rightarrow> Node" where
  "clone_of sh m steps w =
     createClone sh (fresh w + 1) (this_node m) (getBoundingClientRect (this_node m))
       (fst (point (steps ! 0))) (snd (point (steps ! 0))) (buildPath sh (normalized steps))
       \<lparr>name = keyframeName_of w, duration = durationMs m, easing = easingFn m,
        delay = delayMs m, repeat = repeatCount m, direction = directionVal m\<rparr>"

text \<open>The events of the three phases of a run that are the same on every path.\<close>

definition before_events :: "Motion \<Rightarrow> event list" where
  "before_events m =
     Measured (ident (this_node m))
       # hook_events (BeforeHook (ident (this_node m))) (beforeCallback m)"

definition factory_events :: "Motion \<Rightarrow> event list" where
  "factory_events m = map (FactoryCall (ident (this_node m))) [0..<length (factories m)]"

definition after_events :: "Motion \<Rightarrow> event list" where
  "after_events m = hook_events (AfterHook (ident (this_node m))) (afterCallback m)"

section \<open>Example inputs\<close>

text \<open>
  An element measured at the top left corner of the viewport, ten pixels wide and high,
  a document that holds this element and one style sheet, and factories that return a
  step at a given point.
\<close>

definition example_rect :: DOMRect where
  "example_rect = \<lparr>rect_left = Fin 0, rect_top = Fin 0, rect_width = Fin 10, rect_height = Fin 10\<rparr>"

definition example_node :: Node where
  "example_node = \<lparr>ident = 1, bounds = example_rect, style = []\<rparr>"

definition example_sheet :: HTMLStyleElement where
  "example_sheet = \<lparr>el_ident = 0, innerHTML = ''body { margin: 0 }''\<rparr>"

definition example_world :: World where
  "example_world =
     \<lparr>head_children = [example_sheet], body_children = [example_node], fresh = 2,
      random_strings = (\<lambda>i. ''k''), drawn = 0, trace = []\<rparr>"

definition step_to :: "jsnum \<Rightarrow> jsnum \<Rightarrow> StepFactory" where
  "step_to x y = (\<lambda>ctx. Inr \<lparr>at_percent = None, point = (x, y), styles = None\<rparr>)"

definition fulfilling :: Hook where
  "fulfilling = (\<lambda>ctx. Fulfilled)"

definition rejecting :: Hook where
  "rejecting = (\<lambda>ctx. Rejected (Thrown ''setup failed''))"

text \<open>A motion with a duration of 800 ms, a delay of 100 ms, an after-hook and one step.\<close>

definition timed_motion :: "Repeat \<Rightarrow> Motion" where
  "timed_motion r =
     (after fulfilling (addStep (step_to (Fin 5) (Fin 7)) (new_Motion example_node)))
       \<lparr>durationMs := Fin 800, delayMs := Fin 100, repeatCount := r\<rparr>"

text \<open>
  Three elements and, for each, a motion with both hooks and one step; the first two
  are queued in a timeline that is itself the first entry of an outer timeline.
\<close>

definition example_motion :: "nat \<Rightarrow> Motion" where
  "example_motion i =
     after fulfilling (before fulfilling
       (addStep (step_to (Fin 5) (Fin 7)) (new_Motion (example_node\<lparr>ident := i\<rparr>))))"

definition inner_timeline :: MotionTimeline where
  "inner_timeline =
     add (OfMotion (example_motion 12)) (add (OfMotion (example_motion 11)) new_MotionTimeline)"

definition outer_timeline :: MotionTimeline where
  "outer_timeline =
     add (OfMotion (example_motion 13)) (add (OfTimeline inner_timeline) new_MotionTimeline)"

text \<open>The lifecycle marks of a trace: where a run starts and where its after-hook is called.\<close>

definition lifecycle_marks :: "event list \<Rightarrow> event list" where
  "lifecycle_marks evs =
     filter (\<lambda>ev. case ev of Measured i \<Rightarrow> True | AfterHook i \<Rightarrow> True | _ \<Rightarrow> False) evs"

section \<open>Rounding to the nearest double\<close>

lemma round_half_even_of_int [simp]: "round_half_even (of_int n) = n"
  by (simp add: round_half_even_def)

lemma round_half_even_close: "\<bar>of_int (round_half_even x) - x\<bar> \<le> 1 / 2"
  unfolding round_half_even_def Let_def by (auto; linarith)

lemma binade_numeral:
  "binade (numeral k) x =
     (if 2 \<le> x then binade (pred_numeral k) (x / 2) + 1
      else if x < 1 then binade (pred_numeral k) (2 * x) - 1
      else 0)"
  by (simp add: numeral_eq_Suc)

lemma pow2_Suc: "(2::real) powi (z + 1) = 2 * 2 powi z"
  by (simp add: power_int_add)

lemma pow2_pred: "(2::real) powi (z - 1) = 2 powi z / 2"
  by (simp add: power_int_diff)

lemma binade_bounds:
  "0 < x \<Longrightarrow> 1 \<le> x * 2 ^ n \<Longrightarrow> x < 2 * 2 ^ n \<Longrightarrow>
     2 powi (binade n x) \<le> x \<and> x < 2 * 2 powi (binade n x)"
proof (induction n arbitrary: x)
  case 0
  then show ?case by simp
next
  case (Suc n)
  show ?case
  proof (cases "2 \<le> x")
    case True
    define b where "b = binade n (x / 2)"
    have "1 * 1 \<le> (x / 2) * 2 ^ n"
      using True by (intro mult_mono) simp_all
    then have l: "1 \<le> (x / 2) * 2 ^ n" by simp
    have u: "x / 2 < 2 * 2 ^ n" using Suc.prems(3) by simp
    have "0 < x / 2" using True by simp
    from Suc.IH [OF this l u]
    have "2 powi b \<le> x / 2 \<and> x / 2 < 2 * 2 powi b"
      by (simp add: b_def)
    moreover have "binade (Suc n) x = b + 1"
      using True by (simp add: b_def)
    ultimately show ?thesis
      using pow2_Suc [of b] by simp
  next
    case False
    show ?thesis
    proof (cases "x < 1")
      case True
      define b where "b = binade n (2 * x)"
      have l: "1 \<le> (2 * x) * 2 ^ n" using Suc.prems(2) by (simp add: mult.assoc mult.left_commute)
      have "(1::real) \<le> 2 ^ n" by simp
      then have u: "2 * x < 2 * 2 ^ n" using True by linarith
      have "0 < 2 * x" using Suc.prems(1) by simp
      from Suc.IH [OF this l u]
      have "2 powi b \<le> 2 * x \<and> 2 * x < 2 * 2 powi b"
        by (simp add: b_def)
      moreover have "binade (Suc n) x = b - 1"
        using True False by (simp add: b_def)
      ultimately show ?thesis
        using pow2_pred [of b] by simp
    next
      case False
      then show ?thesis using \<open>\<not> 2 \<le> x\<close> by simp
    qed
  qed
qed


lemma round64_0 [simp]: "round64 0 = Fin 0"
  by (simp add: round64_def)

lemma binade_ge_1: "1 \<le> x \<Longrightarrow> 0 \<le> binade n x \<and> 2 powi (binade n x) \<le> x"
proof (induction n arbitrary: x)
  case 0
  then show ?case by simp
next
  case (Suc n)
  show ?case
  proof (cases "2 \<le> x")
    case True
    then have "1 \<le> x / 2" by simp
    from Suc.IH [OF this] pow2_Suc [of "binade n (x / 2)"] True show ?thesis by simp
  next
    case False
    then show ?thesis using Suc.prems by simp
  qed
qed

lemma binade_int:
  assumes "1 \<le> \<bar>k\<bar>" and "\<bar>k\<bar> \<le> 2 ^ 53"
  shows "0 \<le> binade 1100 \<bar>real_of_int k\<bar>" and "binade 1100 \<bar>real_of_int k\<bar> \<le> 53"
    and "53 \<le> binade 1100 \<bar>real_of_int k\<bar> \<Longrightarrow> \<bar>k\<bar> = 2 ^ 53"
proof -
  let ?x = "\<bar>real_of_int k\<bar>"
  let ?e = "binade 1100 ?x"
  have cast: "?x = real_of_int \<bar>k\<bar>" by simp
  have x1: "1 \<le> ?x" unfolding cast using assms(1) of_int_le_iff [of 1 "\<bar>k\<bar>", where ?'a = real] by simp
  have xu: "?x \<le> 2 ^ 53"
    unfolding cast using assms(2) of_int_le_iff [of "\<bar>k\<bar>" "2 ^ 53", where ?'a = real] by simp
  from binade_ge_1 [OF x1] have e0: "0 \<le> ?e" and lo: "2 powi ?e \<le> ?x" by simp_all
  show "0 \<le> ?e" by (rule e0)
  have le53: "?e \<le> 53"
  proof (rule ccontr)
    assume "\<not> ?e \<le> 53"
    then have "54 \<le> ?e" by simp
    then have "(2::real) powi 54 \<le> 2 powi ?e"
      by (intro power_int_increasing) simp_all
    with lo xu show False by simp
  qed
  show "?e \<le> 53" by (rule le53)
  assume "53 \<le> ?e"
  then have "(2::real) powi 53 \<le> 2 powi ?e"
    by (intro power_int_increasing) simp_all
  with lo xu have "?x = 2 ^ 53" by simp
  then have "real_of_int \<bar>k\<bar> = real_of_int (2 ^ 53)" unfolding cast by simp
  then show "\<bar>k\<bar> = 2 ^ 53" by (simp only: of_int_eq_iff)
qed

lemma round64_of_int:
  assumes "\<bar>k\<bar> \<le> 2 ^ 53"
  shows "round64 (of_int k) = Fin (of_int k)"
proof (cases "k = 0")
  case True
  then show ?thesis by simp
next
  case False
  then have k1: "1 \<le> \<bar>k\<bar>" by simp
  let ?e = "binade 1100 \<bar>real_of_int k\<bar>"
  note b = binade_int [OF k1 assms]
  define q where "q = max (?e - 52) (- 1074)"
  have q: "q = ?e - 52" using b(1) by (simp add: q_def)
  have "\<exists>n. real_of_int k / 2 powi q = of_int n"
  proof (cases "?e \<le> 52")
    case True
    define d where "d = nat (52 - ?e)"
    have "q = - int d" using q True by (simp add: d_def)
    then have "(2::real) powi q = inverse (2 ^ d)"
      by (simp add: power_int_minus)
    then have "real_of_int k / 2 powi q = of_int (k * 2 ^ d)"
      by (simp add: divide_inverse)
    then show ?thesis by blast
  next
    case False
    then have e53: "?e = 53" using b(2) by simp
    then have "\<bar>k\<bar> = 2 ^ 53" using b(3) by simp
    then have "k = 2 ^ 53 \<or> k = - (2 ^ 53)" by linarith
    moreover have "q = 1" using q e53 by simp
    ultimately have "real_of_int k / 2 powi q = of_int (k div 2)"
      by auto
    then show ?thesis by blast
  qed
  then obtain n where n: "real_of_int k / 2 powi q = of_int n" by blast
  have "(2::real) powi q \<noteq> 0" by simp
  with n have y: "of_int n * 2 powi q = real_of_int k"
    by (simp add: field_simps)
  have "\<bar>real_of_int k\<bar> \<le> 2 ^ 53"
    using assms of_int_le_iff [of "\<bar>k\<bar>" "2 ^ 53", where ?'a = real] by simp
  moreover have "(2::real) ^ 53 < 2 ^ 1024" by simp
  ultimately have "\<not> 2 ^ 1024 \<le> real_of_int k" and "\<not> real_of_int k \<le> - (2 ^ 1024)"
    by linarith+
  then show ?thesis
    using False by (simp add: round64_def Let_def q_def [symmetric] n y)
qed

lemma round64_of_nat: "n \<le> 2 ^ 53 \<Longrightarrow> round64 (real n) = Fin (real n)"
  using round64_of_int [of "int n"] by simp

lemma round64_numeral:
  "numeral k \<le> (2::int) ^ 53 \<Longrightarrow> round64 (numeral k) = Fin (numeral k)"
  using round64_of_int [of "numeral k"] by simp

lemma round64_1 [simp]: "round64 1 = Fin 1"
  using round64_of_int [of 1] by simp

lemma jssub_Fin [simp]: "jssub (Fin a) (Fin b) = round64 (a - b)"
  by (simp add: jssub_def)

lemma round64_ge_1:
  assumes "1 \<le> x"
  shows "round64 x = PosInf \<or> (\<exists>y. 0 < y \<and> round64 x = Fin y)"
proof -
  have ax: "\<bar>x\<bar> = x" using assms by simp
  from binade_ge_1 [OF assms, of 1100]
  have e0: "0 \<le> binade 1100 x" and lo: "2 powi (binade 1100 x) \<le> x"
    by simp_all
  define q where "q = max (binade 1100 x - 52) (- 1074)"
  have "q \<le> binade 1100 x" using e0 by (simp add: q_def)
  then have "(2::real) powi q \<le> 2 powi (binade 1100 x)"
    by (intro power_int_increasing) simp_all
  then have "2 powi q \<le> x" using lo by linarith
  moreover have pos: "(0::real) < 2 powi q" by simp
  ultimately have ge: "1 \<le> x / 2 powi q"
    by (simp add: field_simps)
  define m where "m = round_half_even (x / 2 powi q)"
  have "\<bar>of_int m - x / 2 powi q\<bar> \<le> 1 / 2"
    unfolding m_def by (rule round_half_even_close)
  then have "0 < real_of_int m" using ge by linarith
  then have "0 < real_of_int m * 2 powi q" using pos by simp
  then show ?thesis
    using assms by (auto simp: round64_def Let_def ax q_def [symmetric] m_def [symmetric])
qed

lemma round64_error:
  assumes lo: "1 / 2 ^ 64 \<le> \<bar>x\<bar>" and hi: "\<bar>x\<bar> \<le> 2 ^ 64"
  shows "\<exists>y. round64 x = Fin y \<and> \<bar>y - x\<bar> \<le> \<bar>x\<bar> / 2 ^ 53"
proof -
  define e where "e = binade 1100 \<bar>x\<bar>"
  define B where "B = (2::real) ^ 1100"
  have x0: "0 < \<bar>x\<bar>"
  proof -
    have "(0::real) < 1 / 2 ^ 64" by simp
    with lo show ?thesis by linarith
  qed
  have B64: "2 ^ 64 \<le> B"
    unfolding B_def by (rule power_increasing) simp_all
  have "1 \<le> \<bar>x\<bar> * 2 ^ 64" using lo by (simp add: field_simps)
  moreover have "\<bar>x\<bar> * 2 ^ 64 \<le> \<bar>x\<bar> * B"
    using x0 B64 by (intro mult_left_mono) simp_all
  ultimately have l: "1 \<le> \<bar>x\<bar> * B" by (rule order_trans)
  have "\<bar>x\<bar> \<le> B" using hi B64 by (rule order_trans)
  moreover have "B < 2 * B"
  proof -
    have "0 < B" unfolding B_def by simp
    then show ?thesis by simp
  qed
  ultimately have u: "\<bar>x\<bar> < 2 * B" by (rule le_less_trans)
  from binade_bounds [OF x0 l [unfolded B_def] u [unfolded B_def]]
  have b: "2 powi e \<le> \<bar>x\<bar>" "\<bar>x\<bar> < 2 * 2 powi e"
    unfolding e_def by blast+
  have e_lo: "- 64 \<le> e"
  proof (rule ccontr)
    assume "\<not> - 64 \<le> e"
    then have "e + 1 \<le> - 64" by simp
    then have "(2::real) powi (e + 1) \<le> 2 powi (- 64)"
      by (intro power_int_increasing) simp_all
    then have "2 * 2 powi e \<le> (1::real) / 2 ^ 64"
      by (simp add: pow2_Suc)
    with lo b(2) show False by linarith
  qed
  define q where "q = max (e - 52) (- 1074)"
  have q: "q = e - 52" using e_lo by (simp add: q_def)
  have pos: "(0::real) < 2 powi q" by simp
  have pq: "(2::real) powi q = 2 powi e / 2 ^ 52"
    unfolding q by (simp add: power_int_diff)
  define m where "m = round_half_even (x / 2 powi q)"
  define y where "y = real_of_int m * 2 powi q"
  have "\<bar>of_int m - x / 2 powi q\<bar> \<le> 1 / 2"
    unfolding m_def by (rule round_half_even_close)
  then have c1: "\<bar>of_int m - x / 2 powi q\<bar> * 2 powi q \<le> 1 / 2 * 2 powi q"
    using pos by (intro mult_right_mono) simp_all
  have c2: "\<bar>of_int m - x / 2 powi q\<bar> * 2 powi q = \<bar>y - x\<bar>"
  proof -
    have "\<bar>of_int m - x / 2 powi q\<bar> * 2 powi q = \<bar>(of_int m - x / 2 powi q) * 2 powi q\<bar>"
      using pos by (simp add: abs_mult)
    also have "(of_int m - x / 2 powi q) * 2 powi q = y - x"
      using pos by (simp add: y_def field_simps)
    finally show ?thesis .
  qed
  have c3: "1 / 2 * (2::real) powi q = 2 powi e / 2 ^ 53"
    unfolding pq by simp
  from c1 have "\<bar>y - x\<bar> \<le> 2 powi e / 2 ^ 53"
    unfolding c2 c3 .
  moreover have "2 powi e / 2 ^ 53 \<le> \<bar>x\<bar> / 2 ^ 53"
    using b(1) by (simp add: divide_right_mono)
  ultimately have err: "\<bar>y - x\<bar> \<le> \<bar>x\<bar> / 2 ^ 53" by linarith
  have "\<bar>x\<bar> / 2 ^ 53 \<le> \<bar>x\<bar>"
    using x0 by (simp add: field_simps)
  with err have "\<bar>y\<bar> \<le> 2 * \<bar>x\<bar>" by linarith
  with hi have y65: "\<bar>y\<bar> \<le> 2 ^ 65" by simp
  have big: "(2::real) ^ 65 < 2 ^ 1024"
    by (rule power_strict_increasing) simp_all
  have "y \<le> \<bar>y\<bar>" by simp
  then have "y \<le> 2 ^ 65" using y65 by (rule order_trans)
  then have "y < 2 ^ 1024" using big by (rule le_less_trans)
  then have n1: "\<not> 2 ^ 1024 \<le> y" by (simp only: not_le)
  have "- y \<le> \<bar>y\<bar>" by simp
  then have "- y \<le> 2 ^ 65" using y65 by (rule order_trans)
  then have "- y < 2 ^ 1024" using big by (rule le_less_trans)
  then have "- (2 ^ 1024) < y" by (simp only: minus_less_iff)
  then have n2: "\<not> y \<le> - (2 ^ 1024)" by (simp only: not_le)
  have "x \<noteq> 0" using x0 by auto
  then have "round64 x = Fin y"
    unfolding round64_def Let_def e_def [symmetric] q_def [symmetric] m_def [symmetric]
      y_def [symmetric]
    using n1 n2 by (simp only: if_False)
  with err show ?thesis by blast
qed


section \<open>The printer at the numbers of the examples\<close>

lemma toStr_simps:
  "toStr (Fin 0) = ''0''" "toStr (Fin 1) = ''1''" "toStr (Fin 2) = ''2''" "toStr (Fin 3) = ''3''"
  "toStr (Fin 4) = ''4''" "toStr (Fin 5) = ''5''" "toStr (Fin 7) = ''7''" "toStr (Fin 10) = ''10''"
  "toStr (Fin 50) = ''50''" "toStr (Fin 100) = ''100''" "toStr (Fin 1000) = ''1000''" "toStr NaN = ''NaN''"
  by (simp_all add: toStr_def showNat.simps)

section \<open>Path synthesis\<close>

lemma map_upt_first: "0 < m \<Longrightarrow> map f [0..<m] = f 0 # map (\<lambda>k. f (Suc k)) [0..<m - 1]"
  by (cases m) (simp_all add: upt_conv_Cons map_Suc_upt [symmetric] comp_def del: upt_Suc)

lemma buildPath_loop_eq:
  "buildPath_loop sh ps i path =
     path @ map (\<lambda>k. curveAt sh ps (i + 2 * k)) [0..<(length ps - i + 1) div 2]"
proof (induction sh ps i path rule: buildPath_loop.induct)
  case (1 sh ps i path)
  show ?case
  proof (cases "i < length ps")
    case True
    let ?m = "(length ps - i + 1) div 2"
    have m: "(length ps - (i + 2) + 1) div 2 = ?m - 1" and pos: "0 < ?m"
      using True by arith+
    have "buildPath_loop sh ps i path = buildPath_loop sh ps (i + 2) (path @ [curveAt sh ps i])"
      using True by (subst buildPath_loop.simps) (simp add: curveAt_def)
    also have "\<dots> = (path @ [curveAt sh ps i])
        @ map (\<lambda>k. curveAt sh ps (i + 2 + 2 * k)) [0..<(length ps - (i + 2) + 1) div 2]"
      using "1.IH" [OF True] unfolding curveAt_def .
    also have "\<dots> = (path @ [curveAt sh ps i])
        @ map (\<lambda>k. curveAt sh ps (i + 2 + 2 * k)) [0..<?m - 1]"
      by (simp only: m)
    also have "\<dots> = path @ map (\<lambda>k. curveAt sh ps (i + 2 * k)) [0..<?m]"
      unfolding map_upt_first [OF pos, of "\<lambda>k. curveAt sh ps (i + 2 * k)"] by simp
    finally show ?thesis .
  next
    case False
    then show ?thesis
      by (subst buildPath_loop.simps) simp
  qed
qed

lemma pointOrLast_in_set: "points \<noteq> [] \<Longrightarrow> pointOrLast points j \<in> set points"
  by (simp add: pointOrLast_def)

text \<open>
  C4. A list of exactly one point \<open>(x, y)\<close> gives the path of the single straight segment
  from the origin to \<open>(x, y)\<close>. A list of two or more points gives a move to the origin
  followed by one cubic-curve segment for every index \<open>i = 0, 2, 4, ...\<close> below the
  length of the list, in that order; the segment at \<open>i\<close> reads the points \<open>i\<close>, \<open>i + 1\<close>
  and \<open>i + 2\<close> as first control point, second control point and endpoint, where an index
  past the end stands for the last point of the list, so that every point a segment
  uses is an element of the list.
\<close>

theorem buildPath_segments:
  "(length points = 1 \<longrightarrow>
      buildPath sh points =
        ''path('' @ dquote @ ''M 0 0 L '' @ sh (fst (points ! 0)) @ '' '' @ sh (snd (points ! 0))
          @ dquote @ '')'')
   \<and> (2 \<le> length points \<longrightarrow>
      buildPath sh points =
        ''path('' @ dquote
          @ join '' '' (''M 0 0'' #
              map (\<lambda>k. curveTo sh (pointOrLast points (2 * k)) (pointOrLast points (2 * k + 1))
                         (pointOrLast points (2 * k + 2)))
                [0..<(length points + 1) div 2])
          @ dquote @ '')''
      \<and> (\<forall>j. pointOrLast points j = (if j < length points then points ! j else last points))
      \<and> (\<forall>j. pointOrLast points j \<in> set points))"
proof (intro conjI impI allI)
  assume "length points = 1"
  then show "buildPath sh points =
        ''path('' @ dquote @ ''M 0 0 L '' @ sh (fst (points ! 0)) @ '' '' @ sh (snd (points ! 0))
          @ dquote @ '')''"
    by (simp add: buildPath_def split: prod.splits)
next
  assume n: "2 \<le> length points"
  then have "length points \<noteq> 1" by simp
  then show "buildPath sh points =
        ''path('' @ dquote
          @ join '' '' (''M 0 0'' #
              map (\<lambda>k. curveTo sh (pointOrLast points (2 * k)) (pointOrLast points (2 * k + 1))
                         (pointOrLast points (2 * k + 2)))
                [0..<(length points + 1) div 2])
          @ dquote @ '')''"
    by (simp add: buildPath_def buildPath_loop_eq curveAt_def)
next
  fix j
  show "pointOrLast points j = (if j < length points then points ! j else last points)"
    by (simp add: pointOrLast_def)
next
  fix j
  assume "2 \<le> length points"
  then have "points \<noteq> []" by auto
  then show "pointOrLast points j \<in> set points"
    by (rule pointOrLast_in_set)
qed

theorem buildPath_segments_witness:
  "buildPath toStr [(Fin 3, Fin 4)] = ''path('' @ dquote @ ''M 0 0 L 3 4'' @ dquote @ '')''
   \<and> buildPath toStr [(Fin 0, Fin 0), (Fin 1, Fin 2), (Fin 3, Fin 4), (Fin 5, Fin 7)] =
       ''path('' @ dquote @ ''M 0 0 C 0 0, 1 2, 3 4 C 3 4, 5 7, 5 7'' @ dquote @ '')''"
  using buildPath_segments [of "[(Fin 3, Fin 4)]" toStr]
    buildPath_segments [of "[(Fin 0, Fin 0), (Fin 1, Fin 2), (Fin 3, Fin 4), (Fin 5, Fin 7)]" toStr]
  by (simp add: pointOrLast_def curveTo_def toStr_simps upt_conv_Cons del: upt_Suc)

section \<open>Keyframe synthesis\<close>

lemma percentOf_explicit: "at_percent step = Some a \<Longrightarrow> percentOf n i step = a"
  by (simp add: percentOf_def)

lemma percentOf_computed:
  "at_percent step = None \<Longrightarrow>
     percentOf n i step = jsmul (jsdiv (Fin (real i)) (jssub (Fin (real n)) (Fin 1))) (Fin 100)"
  by (simp add: percentOf_def)

lemma percent_first:
  assumes "2 \<le> n"
  shows "jsmul (jsdiv (Fin 0) (jssub (Fin (real n)) (Fin 1))) (Fin 100) = Fin 0"
proof -
  have "1 \<le> real n - 1" using assms by simp
  from round64_ge_1 [OF this]
  consider "round64 (real n - 1) = PosInf" | y where "0 < y" "round64 (real n - 1) = Fin y"
    by blast
  then have "jsdiv (Fin 0) (round64 (real n - 1)) = Fin 0"
  proof cases
    case 1
    then show ?thesis by simp
  next
    case 2
    then show ?thesis by simp
  qed
  then show ?thesis
    by (simp only: jssub_Fin jsmul.simps mult_zero_left round64_0)
qed

lemma length_minus_1:
  assumes "2 \<le> n" and "n \<le> 2 ^ 53"
  shows "jssub (Fin (real n)) (Fin 1) = Fin (real n - 1)"
proof -
  have eq: "real n - 1 = real (n - 1)" using assms(1) by (simp add: of_nat_diff)
  have "n - 1 \<le> 2 ^ 53" using assms(2) by simp
  then have "round64 (real (n - 1)) = Fin (real (n - 1))"
    by (rule round64_of_nat)
  then show ?thesis
    by (simp only: jssub_Fin eq)
qed

lemma round64_100: "round64 100 = Fin 100"
  by (simp add: round64_numeral)

lemma percent_last:
  assumes "2 \<le> n" and "n \<le> 2 ^ 53"
  shows "jsmul (jsdiv (Fin (real (n - 1))) (jssub (Fin (real n)) (Fin 1))) (Fin 100) = Fin 100"
proof -
  have eq: "real (n - 1) = real n - 1" using assms(1) by (simp add: of_nat_diff)
  have nz: "real n - 1 \<noteq> 0" using assms(1) by simp
  have "jsdiv (Fin (real n - 1)) (Fin (real n - 1)) = Fin 1"
    using nz by simp
  then have "jsdiv (Fin (real (n - 1))) (jssub (Fin (real n)) (Fin 1)) = Fin 1"
    by (simp only: length_minus_1 [OF assms] eq)
  then show ?thesis
    by (simp only: jsmul.simps mult_1 round64_100)
qed

lemma percent_close:
  assumes n2: "2 \<le> n" and n53: "n \<le> 2 ^ 53" and i: "i < n"
  shows "\<exists>v. jsmul (jsdiv (Fin (real i)) (jssub (Fin (real n)) (Fin 1))) (Fin 100) = Fin v
           \<and> \<bar>v - real i / (real n - 1) * 100\<bar> \<le> 1 / 2 ^ 45"
proof (cases "i = 0")
  case True
  then show ?thesis
    using percent_first [OF n2] by simp
next
  case False
  define d where "d = real n - 1"
  define t where "t = real i / d"
  define u where "u = (1::real) / 2 ^ 53"
  have u0: "0 < u" by (simp add: u_def)
  have u1: "u \<le> 1 / 100" by (simp add: u_def)
  have u2: "256 * u = 1 / 2 ^ 45" by (simp add: u_def)
  have u3: "1 / 2 ^ 64 \<le> u / 2" by (simp add: u_def)
  have d1: "1 \<le> d" using n2 by (simp add: d_def)
  have i1: "1 \<le> real i" using False by simp
  have id: "real i \<le> d" using i by (simp add: d_def)
  have dn: "d \<le> 2 ^ 53"
  proof -
    have "real n \<le> real (2 ^ 53)" using n53 by (simp only: of_nat_le_iff)
    then show ?thesis by (simp add: d_def)
  qed
  have t1: "t \<le> 1" using id d1 by (simp add: t_def)
  have t0: "u \<le> t"
  proof -
    have "1 / 2 ^ 53 \<le> 1 / d" using d1 dn by (simp add: frac_le)
    also have "\<dots> \<le> real i / d" using i1 d1 by (simp add: divide_right_mono)
    finally show ?thesis by (simp add: t_def u_def)
  qed
  have tpos: "0 < t" using t0 u0 by linarith
  have "1 / 2 ^ 64 \<le> \<bar>t\<bar>" using t0 u3 u0 by linarith
  moreover have "\<bar>t\<bar> \<le> 2 ^ 64"
  proof -
    have "(1::real) \<le> 2 ^ 64" by simp
    with t1 tpos show ?thesis by linarith
  qed
  ultimately obtain a where a: "round64 t = Fin a" and ea: "\<bar>a - t\<bar> \<le> \<bar>t\<bar> / 2 ^ 53"
    using round64_error [of t] by blast
  have "\<bar>t\<bar> / 2 ^ 53 = t * u" using tpos by (simp add: u_def)
  with ea have ea': "\<bar>a - t\<bar> \<le> t * u" by (simp only:)
  have tu: "t * u \<le> 1 * u"
    by (rule mult_right_mono) (use t1 u0 in simp_all)
  have tu2: "t * u \<le> t * (1 / 2)"
    by (rule mult_left_mono) (use tpos u1 in simp_all)
  have a_lo: "t / 2 \<le> a" using ea' tu2 by linarith
  have a_hi: "a \<le> 1 + u" using ea' tu t1 by linarith
  have apos: "0 < a" using a_lo tpos by linarith
  define c where "c = a * 100"
  have c_lo: "50 * t \<le> c" using a_lo by (simp add: c_def)
  have c_hi: "c \<le> 101" using a_hi u1 by (simp add: c_def)
  have cpos: "0 < c" using apos by (simp add: c_def)
  have "1 / 2 ^ 64 \<le> \<bar>c\<bar>" using c_lo t0 u3 u0 by linarith
  moreover have "\<bar>c\<bar> \<le> 2 ^ 64"
  proof -
    have "(101::real) \<le> 2 ^ 64" by simp
    with c_hi cpos show ?thesis by linarith
  qed
  ultimately obtain v where v: "round64 c = Fin v"
    and ev: "\<bar>v - c\<bar> \<le> \<bar>c\<bar> / 2 ^ 53"
    using round64_error [of c] by blast
  have "\<bar>c\<bar> / 2 ^ 53 = c * u" using cpos by (simp add: u_def)
  with ev have ev': "\<bar>v - c\<bar> \<le> c * u" by (simp only:)
  have cu: "c * u \<le> 101 * u"
    by (rule mult_right_mono) (use c_hi u0 in simp_all)
  have e1: "\<bar>c - t * 100\<bar> \<le> 100 * u"
    using ea' tu unfolding c_def by linarith
  have "\<bar>v - t * 100\<bar> \<le> 256 * u"
    using e1 ev' cu u0 by linarith
  then have close: "\<bar>v - t * 100\<bar> \<le> 1 / 2 ^ 45" by (simp only: u2)
  have sub: "jssub (Fin (real n)) (Fin 1) = Fin d"
    using length_minus_1 [OF n2 n53] by (simp only: d_def)
  have dnz: "d \<noteq> 0" using d1 by linarith
  have "jsdiv (Fin (real i)) (Fin d) = Fin a"
    using dnz a by (simp add: t_def)
  then have "jsmul (jsdiv (Fin (real i)) (jssub (Fin (real n)) (Fin 1))) (Fin 100) = Fin v"
    using v by (simp only: sub jsmul.simps c_def)
  moreover have "t * 100 = real i / (real n - 1) * 100"
    by (simp only: t_def d_def)
  ultimately show ?thesis
    using close by (simp only:) blast
qed

lemma framesOf_nth:
  "i < length steps \<Longrightarrow>
     framesOf sh steps ! i =
       sh (percentOf (length steps) i (steps ! i)) @ ''% { offset-distance: ''
         @ sh (percentOf (length steps) i (steps ! i)) @ ''%; '' @ styleBlockOf (steps ! i) @ '' }''"
  by (simp add: framesOf_def frameOf_def nth_enumerate_eq Let_def)

lemma length_framesOf: "length (framesOf sh steps) = length steps"
  by (simp add: framesOf_def)

text \<open>
  C3. The keyframe description of a non-empty list of steps is the header, one stop per
  step in the order of the steps, and the closing brace. The stop of the step at index
  \<open>i\<close> is at the percentage \<open>p\<close>, sets \<^verbatim>\<open>offset-distance\<close> to \<open>p\<close> percent and is followed by
  the step's style pairs, each written \<^verbatim>\<open>key: value;\<close>. \<open>p\<close> is the step's \<^verbatim>\<open>at\<close> when it
  has one (zero included). For a step without \<^verbatim>\<open>at\<close>, \<open>p\<close> is the number JavaScript
  computes for \<^verbatim>\<open>(i / (N - 1)) * 100\<close>, the quotient and the product each rounded to the
  nearest double: in a list of at least two steps that is 0 for the first step, 100 for
  the last, and within \<open>2 ^ - 45\<close> of the exact \<open>i / (N - 1) * 100\<close> for every step, so
  the stops are evenly spaced over the range from 0 to 100 up to that rounding. (An
  array has fewer than \<open>2 ^ 32\<close> elements; every integer up to \<open>2 ^ 53\<close> is a double.)
\<close>

theorem buildKeyframes_stops:
  assumes "steps \<noteq> []"
  shows "buildKeyframes sh keyframeName steps =
           ''@keyframes '' @ keyframeName @ '' {'' @ newline @ join newline (framesOf sh steps)
             @ newline @ ''}''
       \<and> length (framesOf sh steps) = length steps
       \<and> (\<forall>i<length steps. \<exists>p.
             framesOf sh steps ! i =
               sh p @ ''% { offset-distance: '' @ sh p @ ''%; '' @ styleBlockOf (steps ! i) @ '' }''
           \<and> (\<forall>a. at_percent (steps ! i) = Some a \<longrightarrow> p = a)
           \<and> (at_percent (steps ! i) = None \<longrightarrow>
                p = jsmul (jsdiv (Fin (real i)) (jssub (Fin (real (length steps))) (Fin 1)))
                      (Fin 100))
           \<and> (at_percent (steps ! i) = None \<and> 2 \<le> length steps \<and> length steps \<le> 2 ^ 53 \<longrightarrow>
                (\<exists>v. p = Fin v \<and> \<bar>v - real i / (real (length steps) - 1) * 100\<bar> \<le> 1 / 2 ^ 45))
           \<and> (at_percent (steps ! i) = None \<and> 2 \<le> length steps \<and> i = 0 \<longrightarrow> p = Fin 0)
           \<and> (at_percent (steps ! i) = None \<and> 2 \<le> length steps \<and> length steps \<le> 2 ^ 53
                \<and> i = length steps - 1 \<longrightarrow> p = Fin 100)
           \<and> styleBlockOf (steps ! i) =
               (case styles (steps ! i) of
                  None \<Rightarrow> ''''
                | Some entries \<Rightarrow> join '' '' (map (\<lambda>(k, v). k @ '': '' @ v @ '';'') entries)))"
proof (intro conjI allI impI)
  show "buildKeyframes sh keyframeName steps =
           ''@keyframes '' @ keyframeName @ '' {'' @ newline @ join newline (framesOf sh steps)
             @ newline @ ''}''"
    by (simp add: buildKeyframes_def)
next
  show "length (framesOf sh steps) = length steps"
    by (rule length_framesOf)
next
  fix i
  assume i: "i < length steps"
  let ?n = "length steps"
  let ?p = "percentOf ?n i (steps ! i)"
  show "\<exists>p. framesOf sh steps ! i =
               sh p @ ''% { offset-distance: '' @ sh p @ ''%; '' @ styleBlockOf (steps ! i) @ '' }''
           \<and> (\<forall>a. at_percent (steps ! i) = Some a \<longrightarrow> p = a)
           \<and> (at_percent (steps ! i) = None \<longrightarrow>
                p = jsmul (jsdiv (Fin (real i)) (jssub (Fin (real (length steps))) (Fin 1)))
                      (Fin 100))
           \<and> (at_percent (steps ! i) = None \<and> 2 \<le> length steps \<and> length steps \<le> 2 ^ 53 \<longrightarrow>
                (\<exists>v. p = Fin v \<and> \<bar>v - real i / (real (length steps) - 1) * 100\<bar> \<le> 1 / 2 ^ 45))
           \<and> (at_percent (steps ! i) = None \<and> 2 \<le> length steps \<and> i = 0 \<longrightarrow> p = Fin 0)
           \<and> (at_percent (steps ! i) = None \<and> 2 \<le> length steps \<and> length steps \<le> 2 ^ 53
                \<and> i = length steps - 1 \<longrightarrow> p = Fin 100)
           \<and> styleBlockOf (steps ! i) =
               (case styles (steps ! i) of
                  None \<Rightarrow> ''''
                | Some entries \<Rightarrow> join '' '' (map (\<lambda>(k, v). k @ '': '' @ v @ '';'') entries))"
  proof (intro exI [of _ ?p] conjI allI impI)
    show "framesOf sh steps ! i =
        sh ?p @ ''% { offset-distance: '' @ sh ?p @ ''%; '' @ styleBlockOf (steps ! i) @ '' }''"
      using i by (rule framesOf_nth)
  next
    fix a assume "at_percent (steps ! i) = Some a"
    then show "?p = a" by (rule percentOf_explicit)
  next
    assume "at_percent (steps ! i) = None"
    then show "?p = jsmul (jsdiv (Fin (real i)) (jssub (Fin (real ?n)) (Fin 1))) (Fin 100)"
      by (rule percentOf_computed)
  next
    assume a: "at_percent (steps ! i) = None \<and> 2 \<le> ?n \<and> ?n \<le> 2 ^ 53"
    then have "\<exists>v. jsmul (jsdiv (Fin (real i)) (jssub (Fin (real ?n)) (Fin 1))) (Fin 100) = Fin v
           \<and> \<bar>v - real i / (real ?n - 1) * 100\<bar> \<le> 1 / 2 ^ 45"
      using i by (intro percent_close) simp_all
    then show "\<exists>v. ?p = Fin v \<and> \<bar>v - real i / (real ?n - 1) * 100\<bar> \<le> 1 / 2 ^ 45"
      using a by (simp add: percentOf_computed)
  next
    assume a: "at_percent (steps ! i) = None \<and> 2 \<le> ?n \<and> i = 0"
    then have "at_percent (steps ! 0) = None" by auto
    then show "?p = Fin 0"
      using a percent_first [of ?n] by (simp add: percentOf_computed)
  next
    assume a: "at_percent (steps ! i) = None \<and> 2 \<le> ?n \<and> ?n \<le> 2 ^ 53 \<and> i = ?n - 1"
    then have n: "at_percent (steps ! i) = None" and n2: "2 \<le> ?n" and n53: "?n \<le> 2 ^ 53"
      and il: "i = ?n - 1"
      by blast+
    have "?p = jsmul (jsdiv (Fin (real i)) (jssub (Fin (real ?n)) (Fin 1))) (Fin 100)"
      using n by (rule percentOf_computed)
    also have "\<dots> = Fin 100"
      using percent_last [OF n2 n53] il by simp
    finally show "?p = Fin 100" .
  next
    show "styleBlockOf (steps ! i) =
               (case styles (steps ! i) of
                  None \<Rightarrow> ''''
                | Some entries \<Rightarrow> join '' '' (map (\<lambda>(k, v). k @ '': '' @ v @ '';'') entries))"
      by (simp add: styleBlockOf_def split: option.splits)
  qed
qed

lemma percent_11_of_21:
  "jsmul (jsdiv (Fin 11) (jssub (Fin 21) (Fin 1))) (Fin 100)
     = Fin (7740561859543041 / 140737488355328)"
proof -
  have "round64 (11 / 20) = Fin (2476979795053773 / 4503599627370496)"
    by (simp add: round64_def binade_numeral round_half_even_def Let_def)
  moreover have "round64 (2476979795053773 / 4503599627370496 * 100)
      = Fin (7740561859543041 / 140737488355328)"
    by (simp add: round64_def binade_numeral round_half_even_def Let_def)
  ultimately show ?thesis
    by (simp add: round64_numeral)
qed

theorem buildKeyframes_stops_witness:
  "buildKeyframes toStr ''motion_k''
     [\<lparr>at_percent = None, point = (Fin 1, Fin 2), styles = None\<rparr>,
      \<lparr>at_percent = Some (Fin 50), point = (Fin 3, Fin 4), styles = Some [(''opacity'', ''0.5''), (''scale'', ''0.8'')]\<rparr>,
      \<lparr>at_percent = None, point = (Fin 5, Fin 7), styles = Some [(''opacity'', ''0'')]\<rparr>]
   = ''@keyframes motion_k {'' @ newline
     @ ''0% { offset-distance: 0%;  }'' @ newline
     @ ''50% { offset-distance: 50%; opacity: 0.5; scale: 0.8; }'' @ newline
     @ ''100% { offset-distance: 100%; opacity: 0; }'' @ newline @ ''}''
   \<and> percentOf 21 11 \<lparr>at_percent = None, point = (Fin 1, Fin 2), styles = None\<rparr>
     = Fin (55 + 1 / 2 ^ 47)"
proof -
  let ?steps = "[\<lparr>at_percent = None, point = (Fin 1, Fin 2), styles = None\<rparr>,
      \<lparr>at_percent = Some (Fin 50), point = (Fin 3, Fin 4), styles = Some [(''opacity'', ''0.5''), (''scale'', ''0.8'')]\<rparr>,
      \<lparr>at_percent = None, point = (Fin 5, Fin 7), styles = Some [(''opacity'', ''0'')]\<rparr>]"
  have "buildKeyframes toStr ''motion_k'' ?steps
   = ''@keyframes motion_k {'' @ newline
     @ ''0% { offset-distance: 0%;  }'' @ newline
     @ ''50% { offset-distance: 50%; opacity: 0.5; scale: 0.8; }'' @ newline
     @ ''100% { offset-distance: 100%; opacity: 0; }'' @ newline @ ''}''"
    using buildKeyframes_stops [of ?steps toStr "''motion_k''"]
    by (simp add: framesOf_def frameOf_def percentOf_def styleBlockOf_def toStr_simps
        enumerate_simps Let_def round64_numeral)
  moreover have "percentOf 21 11 \<lparr>at_percent = None, point = (Fin 1, Fin 2), styles = None\<rparr>
     = Fin (55 + 1 / 2 ^ 47)"
    using percent_11_of_21 by (simp add: percentOf_def)
  ultimately show ?thesis by simp
qed

text \<open>
  C2, as the code behaves. For a list of exactly one step without \<^verbatim>\<open>at\<close> the quotient
  \<^verbatim>\<open>0 / (1 - 1)\<close> is evaluated: nothing guards the zero divisor, and the only stop of the
  keyframe description has the percentage \<^verbatim>\<open>NaN\<close>.
\<close>

theorem single_step_percent_NaN:
  assumes "at_percent step = None"
  shows "percentOf (length [step]) 0 step = NaN
       \<and> framesOf sh [step] =
           [sh NaN @ ''% { offset-distance: '' @ sh NaN @ ''%; '' @ styleBlockOf step @ '' }'']"
  using assms by (simp add: framesOf_def frameOf_def percentOf_def inf_of_def Let_def)

theorem single_step_keyframe_NaN:
  "buildKeyframes toStr ''motion_k''
     [\<lparr>at_percent = None, point = (Fin 3, Fin 4), styles = Some [(''opacity'', ''1'')]\<rparr>]
   = ''@keyframes motion_k {'' @ newline
     @ ''NaN% { offset-distance: NaN%; opacity: 1; }'' @ newline @ ''}''"
  using single_step_percent_NaN
      [of "\<lparr>at_percent = None, point = (Fin 3, Fin 4), styles = Some [(''opacity'', ''1'')]\<rparr>" toStr]
  by (simp add: buildKeyframes_def styleBlockOf_def toStr_simps)


section \<open>The run of a motion\<close>

lemma callHook_eq:
  "callHook ev hook ctx w = (hook_outcome hook ctx, w\<lparr>trace := trace w @ hook_events ev hook\<rparr>)"
  by (cases hook) (simp_all add: callHook_def hook_outcome_def hook_events_def record_event_def)

lemma mapFactories_ok:
  "map (\<lambda>fn. fn ctx) fns = map Inr steps \<Longrightarrow>
     mapFactories fns ctx i w =
       (Inr steps, w\<lparr>trace := trace w @ map (FactoryCall (ident (node ctx))) [i..<i + length fns]\<rparr>)"
proof (induction fns arbitrary: steps i w)
  case Nil
  then show ?case by simp
next
  case (Cons fn fns)
  from Cons.prems obtain s ss where steps: "steps = s # ss" and s: "fn ctx = Inr s"
    and ss: "map (\<lambda>fn. fn ctx) fns = map Inr ss"
    by (cases steps) auto
  show ?case
    by (simp add: steps s Cons.IH [OF ss] record_event_def upt_conv_Cons del: upt_Suc)
qed

lemma run_animates:
  assumes b: "hook_outcome (beforeCallback m) (context_of m) = Fulfilled"
    and s: "steps_returned m steps"
    and n: "steps \<noteq> []"
  shows "fst (run sh m w) = hook_outcome (afterCallback m) (context_of m)"
    and "trace (snd (run sh m w)) =
       trace w @ before_events m @ factory_events m
         @ [StyleInjected (styleEl_of sh steps w), CloneAppended (clone_of sh m steps w)]
         @ (case repeatCount m of
              Count n \<Rightarrow> [TimerSet (jsmul (jsadd (durationMs m) (delayMs m)) n),
                           CloneRemoved (ident (clone_of sh m steps w)),
                           StyleRemoved (el_ident (styleEl_of sh steps w))]
            | Infinite \<Rightarrow> [])
         @ after_events m"
    and "head_children (snd (run sh m w)) =
       (case repeatCount m of
          Count n \<Rightarrow> filter (\<lambda>c. el_ident c \<noteq> fresh w) (head_children w)
        | Infinite \<Rightarrow> head_children w @ [styleEl_of sh steps w])"
    and "body_children (snd (run sh m w)) =
       (case repeatCount m of
          Count n \<Rightarrow> filter (\<lambda>c. ident c \<noteq> fresh w + 1) (body_children w)
        | Infinite \<Rightarrow> body_children w @ [clone_of sh m steps w])"
proof -
  have f: "map (\<lambda>fn. fn (context_of m)) (factories m) = map Inr steps"
    using s by (simp add: steps_returned_def)
  have ctx: "\<lparr>node = this_node m, rect = getBoundingClientRect (this_node m)\<rparr> = context_of m"
    by (simp add: context_of_def)
  have idn: "ident (node (context_of m)) = ident (this_node m)"
    by (simp add: context_of_def)
  have len: "length (factories m) = length steps"
    using f by (metis length_map)
  have run_eq: "run sh m w =
     callHook (AfterHook (ident (this_node m))) (afterCallback m) (context_of m)
       (let w3 = w\<lparr>trace := trace w @ before_events m @ factory_events m\<rparr>;
            (suffix, w4) = random_suffix w3;
            (styleEl, w5) = injectStyle (buildKeyframes sh (''motion_'' @ suffix) steps) w4;
            clone = clone_of sh m steps w;
            w6 = appendChild clone (w5\<lparr>fresh := fresh w5 + 1\<rparr>)
        in (if repeatCount m \<noteq> Infinite
            then teardown_after (jsmul (jsadd (durationMs m) (delayMs m))
                  (case repeatCount m of Count n \<Rightarrow> n | Infinite \<Rightarrow> Fin 1)) clone styleEl w6
            else w6))"
    using n
    by (simp add: run_def Let_def ctx callHook_eq b mapFactories_ok [OF f] idn record_event_def
        before_events_def factory_events_def clone_of_def keyframeName_of_def random_suffix_def
        injectStyle_def len split: prod.splits)
  show "fst (run sh m w) = hook_outcome (afterCallback m) (context_of m)"
    by (simp add: run_eq callHook_eq)
  show "trace (snd (run sh m w)) =
       trace w @ before_events m @ factory_events m
         @ [StyleInjected (styleEl_of sh steps w), CloneAppended (clone_of sh m steps w)]
         @ (case repeatCount m of
              Count n \<Rightarrow> [TimerSet (jsmul (jsadd (durationMs m) (delayMs m)) n),
                           CloneRemoved (ident (clone_of sh m steps w)),
                           StyleRemoved (el_ident (styleEl_of sh steps w))]
            | Infinite \<Rightarrow> [])
         @ after_events m"
    by (simp add: run_eq callHook_eq Let_def random_suffix_def injectStyle_def appendChild_def
        teardown_after_def remove_clone_def remove_style_def record_event_def styleEl_of_def
        keyframeName_of_def after_events_def split: Repeat.splits)
  show "head_children (snd (run sh m w)) =
       (case repeatCount m of
          Count n \<Rightarrow> filter (\<lambda>c. el_ident c \<noteq> fresh w) (head_children w)
        | Infinite \<Rightarrow> head_children w @ [styleEl_of sh steps w])"
    by (simp add: run_eq callHook_eq Let_def random_suffix_def injectStyle_def appendChild_def
        teardown_after_def remove_clone_def remove_style_def record_event_def styleEl_of_def
        keyframeName_of_def split: Repeat.splits)
  show "body_children (snd (run sh m w)) =
       (case repeatCount m of
          Count n \<Rightarrow> filter (\<lambda>c. ident c \<noteq> fresh w + 1) (body_children w)
        | Infinite \<Rightarrow> body_children w @ [clone_of sh m steps w])"
    by (simp add: run_eq callHook_eq Let_def random_suffix_def injectStyle_def appendChild_def
        teardown_after_def remove_clone_def remove_style_def record_event_def clone_of_def
        createClone_def split: Repeat.splits)
qed

section \<open>Normalization\<close>

lemma jssub_self: "is_finite a \<Longrightarrow> jssub a a = Fin 0"
  by (cases a) (simp_all add: is_finite_def)

text \<open>
  C9, amended. For a non-empty list of steps the normalized points are the steps'
  points, in order, each minus the point of the first step, coordinate by coordinate.
  When the coordinates of the first point are finite numbers, the first normalized
  point is \<open>(0, 0)\<close>.
\<close>

theorem normalized_subtracts_first:
  assumes "steps \<noteq> []"
  shows "normalized steps =
           map (\<lambda>s. (jssub (fst (point s)) (fst (point (hd steps))),
                      jssub (snd (point s)) (snd (point (hd steps))))) steps
       \<and> length (normalized steps) = length steps
       \<and> (is_finite (fst (point (hd steps))) \<and> is_finite (snd (point (hd steps))) \<longrightarrow>
            hd (normalized steps) = (Fin 0, Fin 0))"
  using assms
  by (cases steps) (simp_all add: normalized_def jssub_self split: prod.splits)

theorem normalized_subtracts_first_witness:
  "normalized
     [\<lparr>at_percent = None, point = (Fin 3, Fin 4), styles = None\<rparr>,
      \<lparr>at_percent = None, point = (Fin 10, Fin 5), styles = None\<rparr>]
   = [(Fin 0, Fin 0), (Fin 7, Fin 1)]"
  using normalized_subtracts_first
    [of "[\<lparr>at_percent = None, point = (Fin 3, Fin 4), styles = None\<rparr>,
          \<lparr>at_percent = None, point = (Fin 10, Fin 5), styles = None\<rparr>]"]
  by (simp add: is_finite_def round64_numeral)

text \<open>
  C9, as stated, fails: the difference of an infinity and itself is \<^verbatim>\<open>NaN\<close>, so a first
  step at \<^verbatim>\<open>[Infinity, 4]\<close> gives the first normalized point \<^verbatim>\<open>[NaN, 0]\<close>.
\<close>

theorem first_normalized_point_not_origin:
  "normalized
     [\<lparr>at_percent = None, point = (PosInf, Fin 4), styles = None\<rparr>,
      \<lparr>at_percent = None, point = (Fin 10, Fin 5), styles = None\<rparr>]
     = [(NaN, Fin 0), (NegInf, Fin 1)]
   \<and> hd (normalized
     [\<lparr>at_percent = None, point = (PosInf, Fin 4), styles = None\<rparr>,
      \<lparr>at_percent = None, point = (Fin 10, Fin 5), styles = None\<rparr>])
     \<noteq> (Fin 0, Fin 0)"
  by (simp add: normalized_def jssub_def)

text \<open>
  C10, amended. For a motion with exactly one step whose point has finite coordinates,
  whatever they are, the normalized point is \<open>(0, 0)\<close>, \<open>buildPath\<close> returns the path from
  the origin to the origin, and that path is the offset path of the clone.
  (\<^verbatim>\<open>Number::toString\<close> prints zero as \<^verbatim>\<open>0\<close>.)
\<close>

theorem single_step_path_constant:
  assumes "is_finite (fst (point s))" and "is_finite (snd (point s))" and "sh (Fin 0) = ''0''"
  shows "normalized [s] = [(Fin 0, Fin 0)]
       \<and> buildPath sh (normalized [s]) = ''path('' @ dquote @ ''M 0 0 L 0 0'' @ dquote @ '')''
       \<and> map_of (style (clone_of sh m [s] w)) ''offsetPath'' =
            Some (''path('' @ dquote @ ''M 0 0 L 0 0'' @ dquote @ '')'')"
proof -
  have n: "normalized [s] = [(Fin 0, Fin 0)]"
    using assms(1,2) by (cases "point s") (simp add: normalized_def jssub_self)
  have p: "buildPath sh (normalized [s]) = ''path('' @ dquote @ ''M 0 0 L 0 0'' @ dquote @ '')''"
    by (simp add: n buildPath_def assms(3))
  have "map_of (style (clone_of sh m [s] w)) ''offsetPath'' = Some (buildPath sh (normalized [s]))"
    by (simp add: clone_of_def createClone_def assign_def update_conv')
  with n p show ?thesis by simp
qed

theorem single_step_path_constant_witness:
  "buildPath toStr (normalized [\<lparr>at_percent = None, point = (Fin 100, Fin 50), styles = None\<rparr>])
     = ''path('' @ dquote @ ''M 0 0 L 0 0'' @ dquote @ '')''"
  using single_step_path_constant
    [of "\<lparr>at_percent = None, point = (Fin 100, Fin 50), styles = None\<rparr>" toStr
        "new_Motion example_node" example_world]
  by (simp add: is_finite_def toStr_simps buildPath_def)

text \<open>
  C10, as stated, fails: a single step at \<^verbatim>\<open>[NaN, NaN]\<close> is normalized to \<^verbatim>\<open>[NaN, NaN]\<close>,
  and the path is not the constant one.
\<close>

theorem single_step_path_not_constant:
  "buildPath toStr (normalized [\<lparr>at_percent = None, point = (NaN, NaN), styles = None\<rparr>])
     = ''path('' @ dquote @ ''M 0 0 L NaN NaN'' @ dquote @ '')''
   \<and> buildPath toStr (normalized [\<lparr>at_percent = None, point = (NaN, NaN), styles = None\<rparr>])
     \<noteq> ''path('' @ dquote @ ''M 0 0 L 0 0'' @ dquote @ '')''"
  by (simp add: normalized_def jssub_def buildPath_def toStr_simps)

section \<open>Runs that end early\<close>

lemma run_no_factories:
  "factories m = [] \<Longrightarrow>
     run sh m w = (hook_outcome (beforeCallback m) (context_of m),
                   w\<lparr>trace := trace w @ before_events m\<rparr>)"
  by (cases "hook_outcome (beforeCallback m) (context_of m)")
     (simp_all add: run_def Let_def callHook_eq record_event_def before_events_def context_of_def)

text \<open>
  C1, as the code behaves. A motion without step factories whose before-hook is absent
  or fulfils: the run fulfils, and all it does is the measurement and the call of the
  before-hook. No style element is injected and no clone is created; the after-hook is
  not called, whether it is set or not.
\<close>

theorem run_without_steps:
  assumes "factories m = []" and "hook_outcome (beforeCallback m) (context_of m) = Fulfilled"
  shows "run sh m w = (Fulfilled, w\<lparr>trace := trace w @ before_events m\<rparr>)
       \<and> AfterHook (ident (this_node m)) \<notin> set (before_events m)"
  using assms by (simp add: run_no_factories before_events_def hook_events_def split: option.splits)

theorem run_without_steps_witness:
  "run toStr (after fulfilling (before fulfilling (new_Motion example_node))) example_world
     = (Fulfilled, example_world\<lparr>trace := [Measured 1, BeforeHook 1]\<rparr>)"
  using run_without_steps
    [of "after fulfilling (before fulfilling (new_Motion example_node))" toStr example_world]
  by (simp add: after_def before_def new_Motion_def hook_outcome_def fulfilling_def
      before_events_def hook_events_def example_node_def example_world_def)

text \<open>
  C7. When the before-hook rejects or throws, the run rejects with the same error. All
  it has done is the measurement and the call of the hook: no factory is called, no
  style element is injected, no clone is created or appended, and the after-hook is not
  called.
\<close>

theorem before_hook_failure_aborts:
  assumes "beforeCallback m = Some cb" and "cb (context_of m) = Rejected e"
  shows "run sh m w =
           (Rejected e,
            w\<lparr>trace := trace w @ [Measured (ident (this_node m)), BeforeHook (ident (this_node m))]\<rparr>)
       \<and> head_children (snd (run sh m w)) = head_children w
       \<and> body_children (snd (run sh m w)) = body_children w"
  using assms
  by (simp add: run_def Let_def callHook_eq record_event_def context_of_def hook_outcome_def
      hook_events_def)

theorem before_hook_failure_aborts_witness:
  "run toStr
     (after fulfilling (before rejecting (addStep (step_to (Fin 5) (Fin 7)) (new_Motion example_node))))
     example_world
   = (Rejected (Thrown ''setup failed''), example_world\<lparr>trace := [Measured 1, BeforeHook 1]\<rparr>)"
  using before_hook_failure_aborts
    [of "after fulfilling (before rejecting (addStep (step_to (Fin 5) (Fin 7)) (new_Motion example_node)))"
        rejecting "Thrown ''setup failed''" toStr example_world]
  by (simp add: after_def before_def addStep_def new_Motion_def rejecting_def example_node_def
      example_world_def)

section \<open>Runs that animate\<close>

lemma steps_returned_example:
  "steps_returned (addStep (step_to x y) (new_Motion n))
     [\<lparr>at_percent = None, point = (x, y), styles = None\<rparr>]"
  by (simp add: steps_returned_def addStep_def new_Motion_def step_to_def)

text \<open>
  C6. A run whose before-hook is absent or fulfils and whose factories return a
  non-empty list of steps. With a repeat count \<open>n\<close> the run injects the style element and
  appends the clone, asks the timer for \<open>(duration + delay) * n\<close> milliseconds, then
  removes the clone and the style element, each once and one right after the other, and
  only then calls the after-hook; neither is in the document afterwards. With the
  repeat \<^verbatim>\<open>infinite\<close> the run asks for no timer and removes nothing: the after-hook follows
  the insertion of the clone directly, and the style element and the clone stay in the
  document. In both cases the run settles as the after-hook does.
\<close>

theorem repeat_wait_and_teardown:
  assumes "hook_outcome (beforeCallback m) (context_of m) = Fulfilled"
    and "steps_returned m steps"
    and "steps \<noteq> []"
  shows "(\<forall>n. repeatCount m = Count n \<longrightarrow>
            trace (snd (run sh m w)) =
              trace w @ before_events m @ factory_events m
                @ [StyleInjected (styleEl_of sh steps w), CloneAppended (clone_of sh m steps w),
                   TimerSet (jsmul (jsadd (durationMs m) (delayMs m)) n),
                   CloneRemoved (ident (clone_of sh m steps w)),
                   StyleRemoved (el_ident (styleEl_of sh steps w))]
                @ after_events m
          \<and> body_children (snd (run sh m w)) =
              filter (\<lambda>c. ident c \<noteq> ident (clone_of sh m steps w)) (body_children w)
          \<and> head_children (snd (run sh m w)) =
              filter (\<lambda>el. el_ident el \<noteq> el_ident (styleEl_of sh steps w)) (head_children w)
          \<and> clone_of sh m steps w \<notin> set (body_children (snd (run sh m w)))
          \<and> styleEl_of sh steps w \<notin> set (head_children (snd (run sh m w))))
       \<and> (repeatCount m = Infinite \<longrightarrow>
            trace (snd (run sh m w)) =
              trace w @ before_events m @ factory_events m
                @ [StyleInjected (styleEl_of sh steps w), CloneAppended (clone_of sh m steps w)]
                @ after_events m
          \<and> body_children (snd (run sh m w)) = body_children w @ [clone_of sh m steps w]
          \<and> head_children (snd (run sh m w)) = head_children w @ [styleEl_of sh steps w])
       \<and> fst (run sh m w) = hook_outcome (afterCallback m) (context_of m)"
proof -
  note r = run_animates [OF assms, of sh w]
  have idc: "ident (clone_of sh m steps w) = fresh w + 1"
    by (simp add: clone_of_def createClone_def)
  have ide: "el_ident (styleEl_of sh steps w) = fresh w"
    by (simp add: styleEl_of_def)
  show ?thesis
    by (simp add: r idc ide)
qed

lemma steps_returned_timed:
  "steps_returned (timed_motion r) [\<lparr>at_percent = None, point = (Fin 5, Fin 7), styles = None\<rparr>]"
  by (simp add: steps_returned_def timed_motion_def after_def addStep_def new_Motion_def
      step_to_def)

lemma timed_motion_fields:
  "beforeCallback (timed_motion r) = None"
  "afterCallback (timed_motion r) = Some fulfilling"
  "repeatCount (timed_motion r) = r"
  "durationMs (timed_motion r) = Fin 800"
  "delayMs (timed_motion r) = Fin 100"
  "length (factories (timed_motion r)) = 1"
  "ident (this_node (timed_motion r)) = 1"
  by (simp_all add: timed_motion_def after_def addStep_def new_Motion_def example_node_def)

theorem repeat_wait_and_teardown_witness:
  "trace (snd (run toStr (timed_motion (Count (Fin 2))) example_world)) =
     [Measured 1, FactoryCall 1 0,
      StyleInjected (styleEl_of toStr
         [\<lparr>at_percent = None, point = (Fin 5, Fin 7), styles = None\<rparr>] example_world),
      CloneAppended (clone_of toStr (timed_motion (Count (Fin 2)))
         [\<lparr>at_percent = None, point = (Fin 5, Fin 7), styles = None\<rparr>] example_world),
      TimerSet (Fin 1800), CloneRemoved 3, StyleRemoved 2, AfterHook 1]
   \<and> body_children (snd (run toStr (timed_motion (Count (Fin 2))) example_world)) = [example_node]
   \<and> head_children (snd (run toStr (timed_motion (Count (Fin 2))) example_world)) = [example_sheet]
   \<and> trace (snd (run toStr (timed_motion Infinite) example_world)) =
     [Measured 1, FactoryCall 1 0,
      StyleInjected (styleEl_of toStr
         [\<lparr>at_percent = None, point = (Fin 5, Fin 7), styles = None\<rparr>] example_world),
      CloneAppended (clone_of toStr (timed_motion Infinite)
         [\<lparr>at_percent = None, point = (Fin 5, Fin 7), styles = None\<rparr>] example_world),
      AfterHook 1]
   \<and> body_children (snd (run toStr (timed_motion Infinite) example_world)) =
     [example_node, clone_of toStr (timed_motion Infinite)
         [\<lparr>at_percent = None, point = (Fin 5, Fin 7), styles = None\<rparr>] example_world]
   \<and> head_children (snd (run toStr (timed_motion Infinite) example_world)) =
     [example_sheet, styleEl_of toStr
         [\<lparr>at_percent = None, point = (Fin 5, Fin 7), styles = None\<rparr>] example_world]"
proof -
  let ?steps = "[\<lparr>at_percent = None, point = (Fin 5, Fin 7), styles = None\<rparr>]"
  have b: "hook_outcome (beforeCallback (timed_motion r)) (context_of (timed_motion r)) = Fulfilled"
    for r
    by (simp add: hook_outcome_def timed_motion_fields)
  have n: "?steps \<noteq> []"
    by simp
  have idc: "ident (clone_of toStr (timed_motion r) ?steps example_world) = 3" for r
    by (simp add: clone_of_def createClone_def example_world_def)
  have ide: "el_ident (styleEl_of toStr ?steps example_world) = 2"
    by (simp add: styleEl_of_def example_world_def)
  have doc: "body_children example_world = [example_node]"
    "head_children example_world = [example_sheet]" "trace example_world = []"
    by (simp_all add: example_world_def)
  have ids: "ident example_node = 1" "el_ident example_sheet = 0"
    by (simp_all add: example_node_def example_sheet_def)
  show ?thesis
    using repeat_wait_and_teardown [OF b steps_returned_timed n, of "Count (Fin 2)" toStr example_world]
      repeat_wait_and_teardown [OF b steps_returned_timed n, of Infinite toStr example_world]
    by (simp add: timed_motion_fields idc ide doc ids before_events_def factory_events_def
        after_events_def hook_events_def round64_numeral)
qed

text \<open>
  C5, amended. In a run whose before-hook is absent or fulfils and whose factories
  return a non-empty list of steps, the clone that is appended has fixed positioning,
  \<^verbatim>\<open>left\<close> and \<^verbatim>\<open>top\<close> equal to the x and y of the first step's point, \<^verbatim>\<open>width\<close> and
  \<^verbatim>\<open>height\<close> equal to those of the measured rectangle, the z-index 9999 and no pointer
  events.
\<close>

theorem clone_placed_at_first_point:
  assumes "hook_outcome (beforeCallback m) (context_of m) = Fulfilled"
    and "steps_returned m steps"
    and "steps \<noteq> []"
  shows "CloneAppended (clone_of sh m steps w) \<in> set (trace (snd (run sh m w)))
       \<and> map_of (style (clone_of sh m steps w)) ''position'' = Some ''fixed''
       \<and> map_of (style (clone_of sh m steps w)) ''left'' = Some (sh (fst (point (hd steps))) @ ''px'')
       \<and> map_of (style (clone_of sh m steps w)) ''top'' = Some (sh (snd (point (hd steps))) @ ''px'')
       \<and> map_of (style (clone_of sh m steps w)) ''width'' =
            Some (sh (rect_width (getBoundingClientRect (this_node m))) @ ''px'')
       \<and> map_of (style (clone_of sh m steps w)) ''height'' =
            Some (sh (rect_height (getBoundingClientRect (this_node m))) @ ''px'')
       \<and> map_of (style (clone_of sh m steps w)) ''zIndex'' = Some ''9999''
       \<and> map_of (style (clone_of sh m steps w)) ''pointerEvents'' = Some ''none''"
proof -
  have "CloneAppended (clone_of sh m steps w) \<in> set (trace (snd (run sh m w)))"
    by (simp add: run_animates(2) [OF assms])
  moreover have "steps ! 0 = hd steps"
    using assms(3) by (simp add: hd_conv_nth)
  ultimately show ?thesis
    by (simp add: clone_of_def createClone_def assign_def update_conv')
qed

theorem clone_placed_at_first_point_witness:
  "map_of (style (clone_of toStr (addStep (step_to (Fin 5) (Fin 7)) (new_Motion example_node))
      [\<lparr>at_percent = None, point = (Fin 5, Fin 7), styles = None\<rparr>] example_world)) ''left''
     = Some ''5px''
   \<and> map_of (style (clone_of toStr (addStep (step_to (Fin 5) (Fin 7)) (new_Motion example_node))
      [\<lparr>at_percent = None, point = (Fin 5, Fin 7), styles = None\<rparr>] example_world)) ''width''
     = Some ''10px''"
  using clone_placed_at_first_point
      [of "addStep (step_to (Fin 5) (Fin 7)) (new_Motion example_node)"
          "[\<lparr>at_percent = None, point = (Fin 5, Fin 7), styles = None\<rparr>]" toStr example_world]
    steps_returned_example [of "Fin 5" "Fin 7" example_node]
  by (simp add: hook_outcome_def addStep_def new_Motion_def getBoundingClientRect_def
      example_node_def example_rect_def toStr_simps)

text \<open>
  C5, as stated, fails: an element measured at left 0 and top 0 whose first step is at
  the point \<open>(5, 7)\<close> gets a clone with \<^verbatim>\<open>left: 5px\<close> and \<^verbatim>\<open>top: 7px\<close>, not the left
  and top of the measured rectangle.
\<close>

theorem clone_left_is_not_rect_left:
  "CloneAppended (clone_of toStr (addStep (step_to (Fin 5) (Fin 7)) (new_Motion example_node))
      [\<lparr>at_percent = None, point = (Fin 5, Fin 7), styles = None\<rparr>] example_world)
     \<in> set (trace (snd (run toStr (addStep (step_to (Fin 5) (Fin 7)) (new_Motion example_node))
          example_world)))
   \<and> map_of (style (clone_of toStr (addStep (step_to (Fin 5) (Fin 7)) (new_Motion example_node))
      [\<lparr>at_percent = None, point = (Fin 5, Fin 7), styles = None\<rparr>] example_world)) ''left''
     \<noteq> Some (toStr (rect_left (getBoundingClientRect example_node)) @ ''px'')
   \<and> map_of (style (clone_of toStr (addStep (step_to (Fin 5) (Fin 7)) (new_Motion example_node))
      [\<lparr>at_percent = None, point = (Fin 5, Fin 7), styles = None\<rparr>] example_world)) ''top''
     \<noteq> Some (toStr (rect_top (getBoundingClientRect example_node)) @ ''px'')"
proof -
  let ?m = "addStep (step_to (Fin 5) (Fin 7)) (new_Motion example_node)"
  let ?steps = "[\<lparr>at_percent = None, point = (Fin 5, Fin 7), styles = None\<rparr>]"
  have b: "hook_outcome (beforeCallback ?m) (context_of ?m) = Fulfilled"
    by (simp add: hook_outcome_def addStep_def new_Motion_def)
  have "CloneAppended (clone_of toStr ?m ?steps example_world)
      \<in> set (trace (snd (run toStr ?m example_world)))"
    by (simp add: run_animates(2) [OF b steps_returned_example])
  moreover have "map_of (style (clone_of toStr ?m ?steps example_world)) ''left'' = Some ''5px''"
    and "map_of (style (clone_of toStr ?m ?steps example_world)) ''top'' = Some ''7px''"
    by (simp_all add: clone_of_def createClone_def assign_def update_conv' toStr_simps)
  moreover have "toStr (rect_left (getBoundingClientRect example_node)) @ ''px'' = ''0px''"
    and "toStr (rect_top (getBoundingClientRect example_node)) @ ''px'' = ''0px''"
    by (simp_all add: getBoundingClientRect_def example_node_def example_rect_def toStr_simps)
  ultimately show ?thesis by simp
qed

section \<open>Playing a timeline\<close>

lemma play_queue_append:
  "play_queue sh (es @ es') w =
     (case play_queue sh es w of
        (Fulfilled, w') \<Rightarrow> play_queue sh es' w'
      | (Rejected err, w') \<Rightarrow> (Rejected err, w')
      | (Pending, w') \<Rightarrow> (Pending, w'))"
proof (induction es arbitrary: w)
  case Nil
  then show ?case by simp
next
  case (Cons e es)
  show ?case
    by (simp add: Cons.IH split: prod.splits settled.splits)
qed

lemma play_queue_single:
  "play_queue sh [e] w = play_entry sh e w"
  by (simp split: prod.splits settled.splits)

lemma all_less_Suc_shift: "(\<forall>i<Suc n. P i) \<longleftrightarrow> P 0 \<and> (\<forall>i<n. P (Suc i))"
  by (metis less_Suc_eq_0_disj)

lemma play_queue_Fulfilled_iff:
  "play_queue sh es w = (Fulfilled, w') \<longleftrightarrow>
     (\<exists>ws. length ws = length es + 1 \<and> ws ! 0 = w \<and> ws ! length es = w'
        \<and> (\<forall>i<length es. play_entry sh (es ! i) (ws ! i) = (Fulfilled, ws ! Suc i)))"
proof (induction es arbitrary: w)
  case Nil
  have "(\<exists>ws::World list. length ws = 1 \<and> ws ! 0 = w \<and> ws ! 0 = w') \<longleftrightarrow> w = w'"
  proof
    assume "\<exists>ws::World list. length ws = 1 \<and> ws ! 0 = w \<and> ws ! 0 = w'"
    then show "w = w'" by auto
  next
    assume "w = w'"
    then have "length [w] = 1 \<and> [w] ! 0 = w \<and> [w] ! 0 = w'" by simp
    then show "\<exists>ws::World list. length ws = 1 \<and> ws ! 0 = w \<and> ws ! 0 = w'" by blast
  qed
  then show ?case by simp
next
  case (Cons e es)
  show ?case
  proof
    assume l: "play_queue sh (e # es) w = (Fulfilled, w')"
    then obtain w1 where e: "play_entry sh e w = (Fulfilled, w1)"
      and q: "play_queue sh es w1 = (Fulfilled, w')"
      by (auto split: prod.splits settled.splits)
    from q Cons.IH [of w1] obtain ws where ws: "length ws = length es + 1" "ws ! 0 = w1"
      "ws ! length es = w'"
      "\<forall>i<length es. play_entry sh (es ! i) (ws ! i) = (Fulfilled, ws ! Suc i)"
      by auto
    have "length (w # ws) = length (e # es) + 1 \<and> (w # ws) ! 0 = w
        \<and> (w # ws) ! length (e # es) = w'
        \<and> (\<forall>i<length (e # es).
              play_entry sh ((e # es) ! i) ((w # ws) ! i) = (Fulfilled, (w # ws) ! Suc i))"
      using ws e by (simp add: all_less_Suc_shift)
    then show "\<exists>ws. length ws = length (e # es) + 1 \<and> ws ! 0 = w \<and> ws ! length (e # es) = w'
        \<and> (\<forall>i<length (e # es). play_entry sh ((e # es) ! i) (ws ! i) = (Fulfilled, ws ! Suc i))"
      by blast
  next
    assume "\<exists>ws. length ws = length (e # es) + 1 \<and> ws ! 0 = w \<and> ws ! length (e # es) = w'
        \<and> (\<forall>i<length (e # es). play_entry sh ((e # es) ! i) (ws ! i) = (Fulfilled, ws ! Suc i))"
    then obtain ws where len: "length ws = length (e # es) + 1" and w0: "ws ! 0 = w"
      and wl: "ws ! length (e # es) = w'"
      and st: "\<forall>i<length (e # es). play_entry sh ((e # es) ! i) (ws ! i) = (Fulfilled, ws ! Suc i)"
      by blast
    from len obtain v vs where ws: "ws = v # vs" by (cases ws) auto
    from w0 ws have v: "v = w" by simp
    have e: "play_entry sh e w = (Fulfilled, vs ! 0)"
      using st ws v by (simp add: all_less_Suc_shift)
    have rest: "length vs = length es + 1 \<and> vs ! 0 = vs ! 0 \<and> vs ! length es = w'
        \<and> (\<forall>i<length es. play_entry sh (es ! i) (vs ! i) = (Fulfilled, vs ! Suc i))"
      using len wl st ws by (simp add: all_less_Suc_shift)
    then have "play_queue sh es (vs ! 0) = (Fulfilled, w')"
      using Cons.IH [of "vs ! 0"] by blast
    with e show "play_queue sh (e # es) w = (Fulfilled, w')" by simp
  qed
qed

lemma mapFactories_world:
  "\<exists>evs. snd (mapFactories fns ctx i w) = w\<lparr>trace := trace w @ evs\<rparr>"
proof (induction fns arbitrary: i w)
  case Nil
  have "snd (mapFactories [] ctx i w) = w\<lparr>trace := trace w @ []\<rparr>" by simp
  then show ?case by blast
next
  case (Cons fn fns)
  let ?w = "record_event (FactoryCall (ident (node ctx)) i) w"
  show ?case
  proof (cases "fn ctx")
    case (Inl e)
    then have "snd (mapFactories (fn # fns) ctx i w)
        = w\<lparr>trace := trace w @ [FactoryCall (ident (node ctx)) i]\<rparr>"
      by (simp add: record_event_def)
    then show ?thesis by blast
  next
    case (Inr s)
    obtain r w'' where rec: "mapFactories fns ctx (i + 1) ?w = (r, w'')"
      by (cases "mapFactories fns ctx (i + 1) ?w")
    from Cons.IH [of "i + 1" ?w] rec obtain evs where "w'' = ?w\<lparr>trace := trace ?w @ evs\<rparr>"
      by auto
    then have "snd (mapFactories (fn # fns) ctx i w)
        = w\<lparr>trace := trace w @ (FactoryCall (ident (node ctx)) i # evs)\<rparr>"
      using Inr rec by (cases r) (simp_all add: record_event_def)
    then show ?thesis by blast
  qed
qed

lemma run_trace_extends: "\<exists>evs. trace (snd (run sh m w)) = trace w @ evs"
proof -
  let ?ctx = "\<lparr>node = this_node m, rect = getBoundingClientRect (this_node m)\<rparr>"
  let ?w2 = "w\<lparr>trace := (trace w @ [Measured (ident (this_node m))])
      @ hook_events (BeforeHook (ident (this_node m))) (beforeCallback m)\<rparr>"
  obtain evs where evs: "snd (mapFactories (factories m) ?ctx 0 ?w2) = ?w2\<lparr>trace := trace ?w2 @ evs\<rparr>"
    using mapFactories_world by blast
  show ?thesis
  proof (cases "hook_outcome (beforeCallback m) ?ctx")
    case Fulfilled
    obtain r w3 where mf: "mapFactories (factories m) ?ctx 0 ?w2 = (r, w3)" by (cases "mapFactories (factories m) ?ctx 0 ?w2")
    with evs have w3: "w3 = ?w2\<lparr>trace := trace ?w2 @ evs\<rparr>" by simp
    show ?thesis
      using Fulfilled mf
      by (cases r)
        (simp_all add: run_def Let_def callHook_eq record_event_def w3 random_suffix_def
          injectStyle_def appendChild_def teardown_after_def remove_clone_def remove_style_def
          split: prod.splits)
  next
    case (Rejected e)
    then show ?thesis
      by (simp add: run_def Let_def callHook_eq record_event_def)
  next
    case Pending
    then show ?thesis
      by (simp add: run_def Let_def callHook_eq record_event_def)
  qed
qed

lemma play_trace_extends:
  "\<exists>evs. trace (snd (play sh t w)) = trace w @ evs"
  "\<exists>evs. trace (snd (play_queue sh es w)) = trace w @ evs"
  "\<exists>evs. trace (snd (play_entry sh e w)) = trace w @ evs"
proof (induction sh t w and sh es w and sh e w rule: play_play_queue_play_entry.induct)
  case (1 sh q w)
  then show ?case by simp
next
  case (2 sh w)
  then show ?case by simp
next
  case (3 sh e es w)
  obtain r w1 where e: "play_entry sh e w = (r, w1)" by (cases "play_entry sh e w")
  from "3.IH"(1) e obtain evs where evs: "trace w1 = trace w @ evs" by auto
  show ?case
  proof (cases r)
    case Fulfilled
    from "3.IH"(2) e Fulfilled obtain evs'
      where "trace (snd (play_queue sh es w1)) = trace w1 @ evs'" by auto
    then have "trace (snd (play_queue sh (e # es) w)) = trace w @ (evs @ evs')"
      using e Fulfilled evs by simp
    then show ?thesis by blast
  next
    case (Rejected err)
    then show ?thesis using e evs by simp
  next
    case Pending
    then show ?thesis using e evs by simp
  qed
next
  case (4 sh t w)
  then show ?case by simp
next
  case (5 sh m w)
  then show ?case by (simp add: run_trace_extends)
qed

text \<open>
  C8. \<open>play\<close> runs the queue in insertion order. Playing a cleared timeline fulfils at
  once and changes nothing. An entry added last is played last: it starts in the
  state in which all earlier entries have completed, and it is not started when an
  earlier entry rejects or never settles. An entry that is a timeline is played by
  playing that timeline, an entry that is a motion by its \<open>run\<close>. \<open>play\<close> fulfils exactly
  when there is a chain of states, from the initial state to the final one, in which
  every entry, in queue order, starts in the state its predecessor left and fulfils.
  Playing an entry only appends to the events so far, so the events of an entry
  follow all events of the entries before it.
\<close>

theorem play_in_insertion_order:
  "play sh (clear t) w = (Fulfilled, w)
   \<and> play sh (add e t) w =
       (case play sh t w of
          (Fulfilled, w') \<Rightarrow> play_entry sh e w'
        | (Rejected err, w') \<Rightarrow> (Rejected err, w')
        | (Pending, w') \<Rightarrow> (Pending, w'))
   \<and> play_entry sh (OfTimeline t') w = play sh t' w
   \<and> play_entry sh (OfMotion m) w = run sh m w
   \<and> (play sh t w = (Fulfilled, w') \<longleftrightarrow>
        (\<exists>ws. length ws = length (queue t) + 1 \<and> ws ! 0 = w \<and> ws ! length (queue t) = w'
           \<and> (\<forall>i<length (queue t).
                 play_entry sh (queue t ! i) (ws ! i) = (Fulfilled, ws ! Suc i))))
   \<and> (\<exists>evs. trace (snd (play_entry sh e w)) = trace w @ evs)"
proof (intro conjI)
  show "play sh (clear t) w = (Fulfilled, w)"
    by (simp add: clear_def)
  show "play sh (add e t) w =
       (case play sh t w of
          (Fulfilled, w') \<Rightarrow> play_entry sh e w'
        | (Rejected err, w') \<Rightarrow> (Rejected err, w')
        | (Pending, w') \<Rightarrow> (Pending, w'))"
    by (cases t) (simp add: add_def play_queue_append play_queue_single
        split: prod.splits settled.splits)
  show "play_entry sh (OfTimeline t') w = play sh t' w"
    by simp
  show "play_entry sh (OfMotion m) w = run sh m w"
    by simp
  show "play sh t w = (Fulfilled, w') \<longleftrightarrow>
        (\<exists>ws. length ws = length (queue t) + 1 \<and> ws ! 0 = w \<and> ws ! length (queue t) = w'
           \<and> (\<forall>i<length (queue t).
                 play_entry sh (queue t ! i) (ws ! i) = (Fulfilled, ws ! Suc i)))"
    by (cases t) (simp add: play_queue_Fulfilled_iff)
  show "\<exists>evs. trace (snd (play_entry sh e w)) = trace w @ evs"
    by (rule play_trace_extends)
qed

lemma example_motion_runs:
  "fst (run sh (example_motion i) w) = Fulfilled"
  "lifecycle_marks (trace (snd (run sh (example_motion i) w))) =
     lifecycle_marks (trace w) @ [Measured i, AfterHook i]"
proof -
  let ?steps = "[\<lparr>at_percent = None, point = (Fin 5, Fin 7), styles = None\<rparr>]"
  have f: "beforeCallback (example_motion i) = Some fulfilling"
    "afterCallback (example_motion i) = Some fulfilling"
    "repeatCount (example_motion i) = Count (Fin 1)"
    "ident (this_node (example_motion i)) = i"
    by (simp_all add: example_motion_def after_def before_def addStep_def new_Motion_def)
  have b: "hook_outcome (beforeCallback (example_motion i)) (context_of (example_motion i)) = Fulfilled"
    by (simp add: f hook_outcome_def fulfilling_def)
  have s: "steps_returned (example_motion i) ?steps"
    by (simp add: steps_returned_def example_motion_def after_def before_def addStep_def
        new_Motion_def step_to_def)
  have n: "?steps \<noteq> []"
    by simp
  note r = run_animates [OF b s n, of sh w]
  show "fst (run sh (example_motion i) w) = Fulfilled"
    unfolding r(1) by (simp add: f hook_outcome_def fulfilling_def)
  show "lifecycle_marks (trace (snd (run sh (example_motion i) w))) =
     lifecycle_marks (trace w) @ [Measured i, AfterHook i]"
    unfolding r(2)
    by (simp add: f lifecycle_marks_def before_events_def factory_events_def after_events_def
        hook_events_def)
qed

theorem play_in_insertion_order_witness:
  "fst (play toStr outer_timeline example_world) = Fulfilled
   \<and> lifecycle_marks (trace (snd (play toStr outer_timeline example_world)))
       = [Measured 11, AfterHook 11, Measured 12, AfterHook 12, Measured 13, AfterHook 13]
   \<and> play toStr (clear outer_timeline) example_world = (Fulfilled, example_world)"
proof -
  define w1 where "w1 = snd (run toStr (example_motion 11) example_world)"
  define w2 where "w2 = snd (run toStr (example_motion 12) w1)"
  define w3 where "w3 = snd (run toStr (example_motion 13) w2)"
  have r1: "run toStr (example_motion 11) example_world = (Fulfilled, w1)"
    by (simp add: w1_def prod_eq_iff example_motion_runs(1))
  have r2: "run toStr (example_motion 12) w1 = (Fulfilled, w2)"
    by (simp add: w2_def prod_eq_iff example_motion_runs(1))
  have r3: "run toStr (example_motion 13) w2 = (Fulfilled, w3)"
    by (simp add: w3_def prod_eq_iff example_motion_runs(1))
  have inner: "play toStr inner_timeline example_world = (Fulfilled, w2)"
    by (simp add: inner_timeline_def add_def new_MotionTimeline_def r1 r2)
  have outer: "play toStr outer_timeline example_world = (Fulfilled, w3)"
    using play_in_insertion_order
      [of toStr "add (OfTimeline inner_timeline) new_MotionTimeline" example_world
          "OfMotion (example_motion 13)"]
    by (simp add: outer_timeline_def add_def new_MotionTimeline_def inner r3)
  have "lifecycle_marks (trace example_world) = []"
    by (simp add: lifecycle_marks_def example_world_def)
  then have "lifecycle_marks (trace w3)
      = [Measured 11, AfterHook 11, Measured 12, AfterHook 12, Measured 13, AfterHook 13]"
    by (simp add: w3_def w2_def w1_def example_motion_runs(2))
  moreover have "play toStr (clear outer_timeline) example_world = (Fulfilled, example_world)"
    using play_in_insertion_order [of toStr outer_timeline example_world] by simp
  ultimately show ?thesis
    by (simp add: outer)
qed

end
